theory Spec2Isabelle
  imports Main
begin

section \<open>Go strings as byte lists\<close>

text \<open>
  A Go \<^verbatim>\<open>string\<close> is a sequence of bytes, here a \<^typ>\<open>string\<close> (a list of 8-bit
  \<^typ>\<open>char\<close>s). The helpers below are the functions of package \<^verbatim>\<open>strings\<close> that
  \<^verbatim>\<open>prober/jsonrpc.go\<close> calls.
\<close>

definition HasPrefix :: "string \<Rightarrow> string \<Rightarrow> bool" where
  "HasPrefix s p = (take (length p) s = p)"

definition TrimPrefix :: "string \<Rightarrow> string \<Rightarrow> string" where
  "TrimPrefix s p = (if HasPrefix s p then drop (length p) s else s)"

text \<open>
  \<^verbatim>\<open>strings.Split(s, ",")\<close>: the pieces between the commas, one more piece than there are
  commas (the second case of the inner \<open>case\<close> is never reached: a split is never empty).
\<close>

fun Split :: "string \<Rightarrow> string list" where
  "Split [] = [[]]"
| "Split (c # cs) =
     (if c = CHR '','' then [] # Split cs
      else (case Split cs of p # ps \<Rightarrow> (c # p) # ps | [] \<Rightarrow> [[c]]))"

text \<open>
  \<^verbatim>\<open>strings.TrimSpace\<close> removes leading and trailing white space as Unicode defines it.
  On UTF-8 bytes these are the six ASCII characters tab, line feed, vertical tab, form feed,
  carriage return and space, and the encodings of U+0085, U+00A0, U+1680, U+2000 to U+200A,
  U+2028, U+2029, U+202F, U+205F and U+3000.
\<close>

definition whiteSpace :: "string list" where
  "whiteSpace =
     [[CHR 0x09], [CHR 0x0A], [CHR 0x0B], [CHR 0x0C], [CHR 0x0D], [CHR 0x20],
      [CHR 0xC2, CHR 0x85], [CHR 0xC2, CHR 0xA0], [CHR 0xE1, CHR 0x9A, CHR 0x80],
      [CHR 0xE2, CHR 0x80, CHR 0x80], [CHR 0xE2, CHR 0x80, CHR 0x81],
      [CHR 0xE2, CHR 0x80, CHR 0x82], [CHR 0xE2, CHR 0x80, CHR 0x83],
      [CHR 0xE2, CHR 0x80, CHR 0x84], [CHR 0xE2, CHR 0x80, CHR 0x85],
      [CHR 0xE2, CHR 0x80, CHR 0x86], [CHR 0xE2, CHR 0x80, CHR 0x87],
      [CHR 0xE2, CHR 0x80, CHR 0x88], [CHR 0xE2, CHR 0x80, CHR 0x89],
      [CHR 0xE2, CHR 0x80, CHR 0x8A], [CHR 0xE2, CHR 0x80, CHR 0xA8],
      [CHR 0xE2, CHR 0x80, CHR 0xA9], [CHR 0xE2, CHR 0x80, CHR 0xAF],
      [CHR 0xE2, CHR 0x81, CHR 0x9F], [CHR 0xE3, CHR 0x80, CHR 0x80]]"

text \<open>The number of bytes of the first pattern that starts \<open>s\<close>; 0 when none does.\<close>

fun leading :: "string list \<Rightarrow> string \<Rightarrow> nat" where
  "leading [] s = 0"
| "leading (p # ps) s = (if p \<noteq> [] \<and> take (length p) s = p then length p else leading ps s)"

lemma leading_le: "leading ps s \<le> length s"
proof (induction ps)
  case Nil
  show ?case by simp
next
  case (Cons p ps)
  have "take (length p) s = p \<Longrightarrow> length p \<le> length s"
    by (metis length_take min.cobounded1)
  with Cons show ?case by simp
qed

function TrimLeftOf :: "string list \<Rightarrow> string \<Rightarrow> string" where
  "TrimLeftOf ps s = (if leading ps s = 0 then s else TrimLeftOf ps (drop (leading ps s) s))"
  by pat_completeness auto
termination
proof (relation "measure (\<lambda>(ps, s). length s)")
  show "wf (measure (\<lambda>(ps, s). length s))" by simp
next
  fix ps :: "string list" and s :: string
  assume "leading ps s \<noteq> 0"
  moreover have "leading ps s \<le> length s" by (rule leading_le)
  ultimately show "((ps, drop (leading ps s) s), (ps, s)) \<in> measure (\<lambda>(ps, s). length s)"
    by simp
qed

declare TrimLeftOf.simps [simp del]

lemma leading_Nil [simp]: "leading ps [] = 0"
  by (induction ps) auto

lemma TrimLeftOf_eval [simp]:
  "TrimLeftOf ps [] = []"
  "TrimLeftOf ps (c # cs) =
     (if leading ps (c # cs) = 0 then c # cs
      else TrimLeftOf ps (drop (leading ps (c # cs)) (c # cs)))"
  by (subst TrimLeftOf.simps, simp) (rule TrimLeftOf.simps)

definition TrimSpace :: "string \<Rightarrow> string" where
  "TrimSpace s = rev (TrimLeftOf (map rev whiteSpace) (rev (TrimLeftOf whiteSpace s)))"

section \<open>Package strconv\<close>

datatype NumError = ErrSyntax | ErrRange

definition isDigit :: "char \<Rightarrow> bool" where
  "isDigit c = (48 \<le> (of_char c :: nat) \<and> (of_char c :: nat) \<le> 57)"

definition digitVal :: "char \<Rightarrow> nat" where
  "digitVal c = of_char c - 48"

definition maxUint64 :: nat where
  "maxUint64 = 18446744073709551615"

text \<open>
  The digit loop of \<^verbatim>\<open>strconv.ParseUint(s, 10, 64)\<close>: it stops with a syntax error at the
  first byte that is not a decimal digit and with a range error as soon as the value leaves
  64 bits, whatever follows.
\<close>

fun ParseUintLoop :: "nat \<Rightarrow> string \<Rightarrow> nat \<times> NumError option" where
  "ParseUintLoop n [] = (n, None)"
| "ParseUintLoop n (c # cs) =
     (if \<not> isDigit c then (0, Some ErrSyntax)
      else if n \<ge> maxUint64 div 10 + 1 then (maxUint64, Some ErrRange)
      else if n * 10 + digitVal c > maxUint64 then (maxUint64, Some ErrRange)
      else ParseUintLoop (n * 10 + digitVal c) cs)"

definition ParseUint :: "string \<Rightarrow> nat \<times> NumError option" where
  "ParseUint s = (if s = [] then (0, Some ErrSyntax) else ParseUintLoop 0 s)"

text \<open>
  \<^verbatim>\<open>strconv.ParseInt(s, 10, 64)\<close>. With a syntax error the value is 0; with a range error
  it is the nearest bound of int64. The callers in \<^verbatim>\<open>jsonrpc.go\<close> differ in which of the
  two results they read.
\<close>

definition ParseInt :: "string \<Rightarrow> int \<times> NumError option" where
  "ParseInt s =
     (if s = [] then (0, Some ErrSyntax)
      else
        let neg = (hd s = CHR ''-'');
            s1 = (if hd s = CHR ''+'' \<or> hd s = CHR ''-'' then tl s else s);
            (un, err) = ParseUint s1
        in if err = Some ErrSyntax then (0, err)
           else if \<not> neg \<and> un \<ge> 2 ^ 63 then (2 ^ 63 - 1, Some ErrRange)
           else if neg \<and> un > 2 ^ 63 then (- (2 ^ 63), Some ErrRange)
           else (if neg then - int un else int un, None))"

definition ParseBool :: "string \<Rightarrow> bool option" where
  "ParseBool str =
     (if str \<in> set [''1'', ''t'', ''T'', ''true'', ''TRUE'', ''True''] then Some True
      else if str \<in> set [''0'', ''f'', ''F'', ''false'', ''FALSE'', ''False''] then Some False
      else None)"

section \<open>Parameter coercion: stringsToSlice\<close>

text \<open>
  The \<^verbatim>\<open>interface{}\<close> values passed as positional RPC parameters.
  \<^verbatim>\<open>stringsToSlice\<close> produces the first three kinds; \<open>Object\<close> is the call object of
  \<^verbatim>\<open>parseJSONRPCParams\<close>.
\<close>

datatype arg = Int64 int | Boolean bool | Str string | Object "(string \<times> string) list"

text \<open>The body of the loop over the parts: trim, then try an integer, then a boolean.\<close>

definition classify :: "string \<Rightarrow> arg" where
  "classify part0 =
     (let part = TrimSpace part0 in
      case ParseInt part of
        (intVal, None) \<Rightarrow> Int64 intVal
      | (_, Some _) \<Rightarrow>
          (case ParseBool part of
             Some boolVal \<Rightarrow> Boolean boolVal
           | None \<Rightarrow> Str part))"

definition stringsToSlice :: "string \<Rightarrow> arg list" where
  "stringsToSlice s = (if s = [] then [] else map classify (Split s))"

section \<open>Floating point: float64 and math/big\<close>

text \<open>
  A float64 is modelled by its exact value: \<open>F64 s m e\<close> is \<open>(-1)\<^sup>s \<times> m \<times> 2\<^sup>e\<close> with \<open>m\<close>
  odd, or \<open>m = 0\<close> and \<open>e = 0\<close> for the two zeros; \<open>F64Inf s\<close> is the infinity of sign
  \<open>s\<close> (\<open>True\<close> is negative). No operation of this program produces a NaN. All rounding
  is to nearest, ties to even, the only mode the program uses.
\<close>

datatype float64 = F64 bool nat int | F64Inf bool

text \<open>\<^verbatim>\<open>BitLen\<close>: the number of bits of a natural number.\<close>

fun bitLen :: "nat \<Rightarrow> nat" where
  "bitLen n = (if n = 0 then 0 else Suc (bitLen (n div 2)))"

declare bitLen.simps [simp del]

lemma bitLen_numeral [simp]:
  "bitLen 0 = 0"
  "bitLen (Suc 0) = Suc 0"
  "bitLen (numeral k) = Suc (bitLen (numeral k div 2))"
  by (simp add: bitLen.simps [of 0], simp add: bitLen.simps [of "Suc 0"] bitLen.simps [of 0],
      subst bitLen.simps, simp)

text \<open>\<open>ilog2 a b\<close> is \<open>\<lfloor>log\<^sub>2 (a / b)\<rfloor>\<close> for positive \<open>a\<close> and \<open>b\<close>.\<close>

definition ilog2 :: "nat \<Rightarrow> nat \<Rightarrow> int" where
  "ilog2 a b =
     (let k = int (bitLen a) - int (bitLen b)
      in if (if 0 \<le> k then b * 2 ^ nat k \<le> a else b \<le> a * 2 ^ nat (- k)) then k else k - 1)"

text \<open>The integer nearest to \<open>a / b\<close>, the even one of two that are equally near.\<close>

definition roundEven :: "nat \<Rightarrow> nat \<Rightarrow> nat" where
  "roundEven a b =
     (let q = a div b; r = a mod b
      in if 2 * r < b then q
         else if b < 2 * r then q + 1
         else if even q then q else q + 1)"

text \<open>\<open>roundAt e a b\<close> is the multiple \<open>m \<times> 2\<^sup>e\<close> nearest to \<open>a / b\<close>, as its \<open>m\<close>.\<close>

definition roundAt :: "int \<Rightarrow> nat \<Rightarrow> nat \<Rightarrow> nat" where
  "roundAt e a b =
     (if 0 \<le> e then roundEven a (b * 2 ^ nat e) else roundEven (a * 2 ^ nat (- e)) b)"

text \<open>
  \<open>roundPrec p a b\<close> rounds \<open>a / b\<close> to \<open>p\<close> significant bits: the result \<open>(m, e)\<close> stands
  for \<open>m \<times> 2\<^sup>e\<close>, with \<open>2\<^sup>p\<^sup>-\<^sup>1 \<le> m \<le> 2\<^sup>p\<close>.
\<close>

definition roundPrec :: "nat \<Rightarrow> nat \<Rightarrow> nat \<Rightarrow> nat \<times> int" where
  "roundPrec p a b = (let e = ilog2 a b - (int p - 1) in (roundAt e a b, e))"

function normal :: "nat \<Rightarrow> int \<Rightarrow> nat \<times> int" where
  "normal m e = (if m = 0 then (0, 0) else if even m then normal (m div 2) (e + 1) else (m, e))"
  by pat_completeness auto
termination
  by (relation "measure (\<lambda>(m, e). m)") auto

declare normal.simps [simp del]

lemma normal_numeral [simp]:
  "normal 0 e = (0, 0)"
  "normal (Suc 0) e = (Suc 0, e)"
  "normal (numeral k) e =
     (if even (numeral k :: nat) then normal (numeral k div 2) (e + 1) else (numeral k, e))"
  by (simp add: normal.simps [of 0], simp add: normal.simps [of "Suc 0"],
      subst normal.simps, simp)

definition finite64 :: "bool \<Rightarrow> nat \<times> int \<Rightarrow> float64" where
  "finite64 s v = (case normal (fst v) (snd v) of (m, e) \<Rightarrow> F64 s m e)"

text \<open>
  \<open>round64 s a b\<close> is the float64 nearest to \<open>(-1)\<^sup>s \<times> a / b\<close>: 53 significant bits in the
  normal range, multiples of \<open>2\<^sup>-\<^sup>1\<^sup>0\<^sup>7\<^sup>4\<close> below \<open>2\<^sup>-\<^sup>1\<^sup>0\<^sup>2\<^sup>2\<close> (gradual underflow, down to
  zero), and infinity once the rounded value reaches \<open>2\<^sup>1\<^sup>0\<^sup>2\<^sup>4\<close>.
\<close>

definition round64 :: "bool \<Rightarrow> nat \<Rightarrow> nat \<Rightarrow> float64" where
  "round64 s a b =
     (if a = 0 then F64 s 0 0
      else if ilog2 a b < - 1022 then finite64 s (roundAt (- 1074) a b, - 1074)
      else let (m, e) = roundPrec 53 a b
           in if int (bitLen m) + e > 1024 then F64Inf s else finite64 s (m, e))"

text \<open>The float64 nearest to \<open>m \<times> 2\<^sup>e\<close>.\<close>

definition round64Dyadic :: "bool \<Rightarrow> nat \<Rightarrow> int \<Rightarrow> float64" where
  "round64Dyadic s m e =
     (if 0 \<le> e then round64 s (m * 2 ^ nat e) 1 else round64 s m (2 ^ nat (- e)))"

subsection \<open>math.Pow10\<close>

text \<open>
  \<^verbatim>\<open>math.Pow10(n)\<close> multiplies (for \<open>n \<ge> 0\<close>) or divides (for \<open>n \<le> 0\<close>) two table entries
  in float64 arithmetic; the tables hold the float64 literals \<^verbatim>\<open>1e00\<close> to \<^verbatim>\<open>1e31\<close>,
  \<^verbatim>\<open>1e00, 1e32, \<dots>, 1e288\<close> and \<^verbatim>\<open>1e-00, 1e-32, \<dots>, 1e-320\<close>. Outside
  \<open>-323 \<le> n \<le> 308\<close> the result is 0 or \<open>+Inf\<close>.
\<close>

definition pow10tab :: "nat \<Rightarrow> float64" where
  "pow10tab i = round64 False (10 ^ i) 1"

definition pow10postab32 :: "nat \<Rightarrow> float64" where
  "pow10postab32 i = round64 False (10 ^ (32 * i)) 1"

definition pow10negtab32 :: "nat \<Rightarrow> float64" where
  "pow10negtab32 i = round64 False 1 (10 ^ (32 * i))"

text \<open>Product and quotient of two float64 values; only positive finite operands occur.\<close>

fun mul64 :: "float64 \<Rightarrow> float64 \<Rightarrow> float64" where
  "mul64 (F64 s1 m1 e1) (F64 s2 m2 e2) = round64Dyadic (s1 \<noteq> s2) (m1 * m2) (e1 + e2)"
| "mul64 x y = x"

fun div64 :: "float64 \<Rightarrow> float64 \<Rightarrow> float64" where
  "div64 (F64 s1 m1 e1) (F64 s2 m2 e2) =
     (if e2 \<le> e1 then round64 (s1 \<noteq> s2) (m1 * 2 ^ nat (e1 - e2)) m2
      else round64 (s1 \<noteq> s2) m1 (m2 * 2 ^ nat (e2 - e1)))"
| "div64 x y = x"

definition Pow10 :: "int \<Rightarrow> float64" where
  "Pow10 n =
     (if 0 \<le> n \<and> n \<le> 308 then mul64 (pow10postab32 (nat n div 32)) (pow10tab (nat n mod 32))
      else if - 323 \<le> n \<and> n \<le> 0
        then div64 (pow10negtab32 (nat (- n) div 32)) (pow10tab (nat (- n) mod 32))
      else if 0 < n then F64Inf False
      else F64 False 0 0)"

subsection \<open>big.Int and big.Float\<close>

text \<open>
  The value of a digit byte for \<^verbatim>\<open>(*big.Int).SetString\<close> in a base up to 36; 63 stands
  for "not a digit".
\<close>

definition bigDigit :: "char \<Rightarrow> nat" where
  "bigDigit c =
     (let n = (of_char c :: nat)
      in if 48 \<le> n \<and> n \<le> 57 then n - 48
         else if 97 \<le> n \<and> n \<le> 122 then n - 97 + 10
         else if 65 \<le> n \<and> n \<le> 90 then n - 65 + 10
         else 63)"

text \<open>
  The scan of the digits: the value of the longest prefix of digits of the base, how many
  digits it has, and what is left of the text.
\<close>

fun scanDigits :: "nat \<Rightarrow> nat \<Rightarrow> nat \<Rightarrow> string \<Rightarrow> nat \<times> nat \<times> string" where
  "scanDigits base z cnt [] = (z, cnt, [])"
| "scanDigits base z cnt (c # cs) =
     (if bigDigit c \<ge> base then (z, cnt, c # cs)
      else scanDigits base (z * base + bigDigit c) (cnt + 1) cs)"

text \<open>
  \<^verbatim>\<open>new(big.Int).SetString(s, base)\<close>: the value left in the receiver and whether the
  call reports success. The program discards the report and reads the receiver, so the
  value after a failure matters: the receiver still is 0 when there is no digit, and it holds
  the digits scanned so far when other text follows them.
\<close>

definition SetString :: "string \<Rightarrow> nat \<Rightarrow> int \<times> bool" where
  "SetString s base =
     (if s = [] then (0, False)
      else
        let neg = (hd s = CHR ''-'');
            s1 = (if hd s = CHR ''+'' \<or> hd s = CHR ''-'' then tl s else s);
            (z, cnt, rest) = scanDigits base 0 0 s1
        in if cnt = 0 then (0, False)
           else (if neg then - int z else int z, rest = []))"

datatype form = form_zero | form_finite | form_inf

text \<open>
  A \<^verbatim>\<open>big.Float\<close>: its precision in bits, its sign, its form and, when finite and not
  zero, its magnitude \<open>mant \<times> 2\<^sup>e\<^sup>x\<^sup>p\<^sup>o\<close>.
\<close>

record Float =
  prec :: nat
  neg :: bool
  form :: form
  mant :: nat
  expo :: int

text \<open>\<^verbatim>\<open>new(big.Float).SetInt(x)\<close>: exact, at precision \<open>max(x.BitLen(), 64)\<close>.\<close>

definition SetInt :: "int \<Rightarrow> Float" where
  "SetInt x =
     \<lparr>prec = max (bitLen (nat \<bar>x\<bar>)) 64, neg = (x < 0),
      form = (if x = 0 then form_zero else form_finite), mant = nat \<bar>x\<bar>, expo = 0\<rparr>"

text \<open>\<^verbatim>\<open>big.NewFloat(x)\<close>: exact, at precision 53 (it panics for a NaN only).\<close>

fun NewFloat :: "float64 \<Rightarrow> Float" where
  "NewFloat (F64 s m e) =
     \<lparr>prec = 53, neg = s, form = (if m = 0 then form_zero else form_finite), mant = m, expo = e\<rparr>"
| "NewFloat (F64Inf s) = \<lparr>prec = 53, neg = s, form = form_inf, mant = 0, expo = 0\<rparr>"

datatype fault = ErrNaN | AlreadyRegistered | LibraryPanic

text \<open>
  \<^verbatim>\<open>new(big.Float).Quo(x, y)\<close>: the quotient rounded to the larger of the two precisions.
  It panics with \<^verbatim>\<open>ErrNaN\<close> for 0/0 and Inf/Inf.
\<close>

definition Quo :: "Float \<Rightarrow> Float \<Rightarrow> fault + Float" where
  "Quo x y =
     (let p = max (prec x) (prec y); s = (neg x \<noteq> neg y)
      in if form x = form_finite \<and> form y = form_finite then
           (let (m, e) = roundPrec p (mant x) (mant y)
            in Inr \<lparr>prec = p, neg = s, form = form_finite, mant = m, expo = e + expo x - expo y\<rparr>)
         else if form x = form_zero \<and> form y = form_zero \<or> form x = form_inf \<and> form y = form_inf then Inl ErrNaN
         else if form x = form_zero \<or> form y = form_inf then
           Inr \<lparr>prec = p, neg = s, form = form_zero, mant = 0, expo = 0\<rparr>
         else Inr \<lparr>prec = p, neg = s, form = form_inf, mant = 0, expo = 0\<rparr>)"

text \<open>\<^verbatim>\<open>(*big.Float).Float64()\<close>: the nearest float64.\<close>

definition Float64 :: "Float \<Rightarrow> float64" where
  "Float64 x =
     (case form x of
        form_zero \<Rightarrow> F64 (neg x) 0 0
      | form_inf \<Rightarrow> F64Inf (neg x)
      | form_finite \<Rightarrow> round64Dyadic (neg x) (mant x) (expo x))"

section \<open>The decimal normalizer: resultToFloat64WithDecimals\<close>

definition resultToFloat64WithDecimals :: "string \<Rightarrow> int \<Rightarrow> fault + float64" where
  "resultToFloat64WithDecimals result decimals =
     (let resultInt =
            (if HasPrefix result ''0x'' then fst (SetString (TrimPrefix result ''0x'') 16)
             else fst (SetString result 10))
      in case Quo (SetInt resultInt) (NewFloat (Pow10 decimals)) of
           Inl p \<Rightarrow> Inl p
         | Inr f \<Rightarrow> Inr (Float64 f))"

section \<open>The collaborators of the prober\<close>

text \<open>
  A decoded JSON value. A number keeps its literal text; the members of an object are in
  document order (Go's decoder lets a later duplicate key win).
\<close>

datatype json =
    JNull
  | JBool bool
  | JNum string
  | JStr string
  | JArr "json list"
  | JObj "(string \<times> json) list"

text \<open>
  What the prober does not define itself is a parameter of the model:
  \<^item> \<open>Dial target\<close>: \<^verbatim>\<open>ethclient.Dial\<close> returns no error (for an http(s) URL it parses the
    URL and opens no connection);
  \<^item> \<open>Call m args\<close>: the endpoint's answer to one call, an error text or the raw result.
    A raw result is \<open>Some j\<close> when it decodes to the JSON value \<open>j\<close> and \<open>None\<close> when
    \<^verbatim>\<open>json.Unmarshal\<close> rejects it (an empty message, a number outside float64): such a
    message is rejected as a string just as it is as an \<^verbatim>\<open>interface{}\<close>;
  \<^item> \<open>Batch reqs\<close>: the answer to one batch, an error for the whole batch or, for each
    index of the batch, an error text or the raw result;
  \<^item> \<open>Search\<close>: \<^verbatim>\<open>jmespath.Search\<close> on a decoded value, for the expressions that are
    not a bare identifier;
  \<^item> \<open>Format\<close>: \<^verbatim>\<open>fmt.Sprintf("%v", v)\<close> for a number, an array or an object;
  \<^item> \<open>Marshal\<close>: \<^verbatim>\<open>json.Marshal\<close> of a decoded value;
  \<^item> \<open>SearchPtr\<close>: \<^verbatim>\<open>jmespath.Search\<close> on a \<^verbatim>\<open>*string\<close> (the first listing's batch
    path) followed by \<^verbatim>\<open>%v\<close>: a panic, an error or the text.
\<close>

record env =
  Dial :: "string \<Rightarrow> bool"
  Call :: "string \<Rightarrow> arg list \<Rightarrow> string + json option"
  Batch :: "(string \<times> arg list) list \<Rightarrow> string + (nat \<Rightarrow> string + json option)"
  Search :: "string \<Rightarrow> json \<Rightarrow> string + json"
  Format :: "json \<Rightarrow> string"
  Marshal :: "json \<Rightarrow> string + string"
  SearchPtr :: "string \<Rightarrow> string \<Rightarrow> fault + (string + string)"

text \<open>What went over the wire: single calls and batches, in order.\<close>

datatype request = Single string "arg list" | Batched "(string \<times> arg list) list"

text \<open>
  The state a probe changes: the names of the collectors registered in the registry, the
  value of each label tuple \<open>(rpc, method, params, tag)\<close> of the \<^verbatim>\<open>probe_jsonrpc\<close> gauge
  vector, and the requests sent.
\<close>

record world =
  Registered :: "string list"
  Gauges :: "string \<times> string \<times> string \<times> string \<rightharpoonup> float64"
  Wire :: "request list"

text \<open>\<^verbatim>\<open>registry.MustRegister\<close> panics when the name is taken.\<close>

definition MustRegister :: "string \<Rightarrow> world \<Rightarrow> fault + world" where
  "MustRegister name w =
     (if name \<in> set (Registered w) then Inl AlreadyRegistered
      else Inr (w\<lparr>Registered := name # Registered w\<rparr>))"

text \<open>
  \<^verbatim>\<open>utf8.ValidString\<close>: a lead byte from C2 to F4, followed by as many continuation bytes
  as it announces; the second byte is confined further after E0, ED, F0 and F4 (no overlong
  form, no surrogate, nothing above U+10FFFF).
\<close>

definition continuation :: "char \<Rightarrow> bool" where
  "continuation c = (128 \<le> (of_char c :: nat) \<and> (of_char c :: nat) \<le> 191)"

fun ValidString :: "string \<Rightarrow> bool" where
  "ValidString [] = True"
| "ValidString (c # cs) =
     (let n = (of_char c :: nat)
      in if n < 128 then ValidString cs
         else if 194 \<le> n \<and> n \<le> 223 then
           (case cs of
              c1 # r \<Rightarrow> continuation c1 \<and> ValidString r
            | _ \<Rightarrow> False)
         else if 224 \<le> n \<and> n \<le> 239 then
           (case cs of
              c1 # c2 # r \<Rightarrow>
                (if n = 224 then 160 \<le> (of_char c1 :: nat) \<and> (of_char c1 :: nat) \<le> 191
                 else if n = 237 then 128 \<le> (of_char c1 :: nat) \<and> (of_char c1 :: nat) \<le> 159
                 else continuation c1) \<and>
                continuation c2 \<and> ValidString r
            | _ \<Rightarrow> False)
         else if 240 \<le> n \<and> n \<le> 244 then
           (case cs of
              c1 # c2 # c3 # r \<Rightarrow>
                (if n = 240 then 144 \<le> (of_char c1 :: nat) \<and> (of_char c1 :: nat) \<le> 191
                 else if n = 244 then 128 \<le> (of_char c1 :: nat) \<and> (of_char c1 :: nat) \<le> 143
                 else continuation c1) \<and>
                continuation c2 \<and> continuation c3 \<and> ValidString r
            | _ \<Rightarrow> False)
         else False)"

text \<open>
  \<^verbatim>\<open>jsonrpcGaugeVec.WithLabelValues(rpc, method, params, tag)\<close>: the gauge of the label
  tuple; it panics when \<^verbatim>\<open>validateLabelValues\<close> finds a label value that is not valid
  UTF-8 (there are four values for the four label names, always). \<^verbatim>\<open>Set\<close> then stores
  the value.
\<close>

definition validateLabelValues :: "string list \<Rightarrow> bool" where
  "validateLabelValues vals = list_all ValidString vals"

definition WithLabelValues ::
  "string \<times> string \<times> string \<times> string \<Rightarrow> fault + string \<times> string \<times> string \<times> string" where
  "WithLabelValues lvs =
     (case lvs of
        (rpc, m, a, tag) \<Rightarrow>
          if validateLabelValues [rpc, m, a, tag] then Inr lvs else Inl LibraryPanic)"

definition SetGauge :: "string \<times> string \<times> string \<times> string \<Rightarrow> float64 \<Rightarrow> world \<Rightarrow> world" where
  "SetGauge labels v w = w\<lparr>Gauges := (Gauges w)(labels \<mapsto> v)\<rparr>"

definition send :: "request \<Rightarrow> world \<Rightarrow> world" where
  "send r w = w\<lparr>Wire := Wire w @ [r]\<rparr>"

text \<open>\<^verbatim>\<open>url.Values\<close>: a key that is absent reads as the empty list.\<close>

type_synonym Values = "string \<rightharpoonup> string list"

definition values_of :: "Values \<Rightarrow> string \<Rightarrow> string list" where
  "values_of params k = (case params k of None \<Rightarrow> [] | Some vs \<Rightarrow> vs)"

definition Get :: "Values \<Rightarrow> string \<Rightarrow> string" where
  "Get params k = (case values_of params k of [] \<Rightarrow> [] | v # _ \<Rightarrow> v)"

subsection \<open>The result extractor\<close>

text \<open>
  A JMESPath expression that is a bare identifier selects a field: the member of that name
  when the value is an object that has one, and null otherwise. Every other expression is
  the parameter \<open>Search\<close>.
\<close>

definition isIdentifier :: "string \<Rightarrow> bool" where
  "isIdentifier e =
     (e \<noteq> [] \<and>
      (let n = (of_char (hd e) :: nat)
       in 65 \<le> n \<and> n \<le> 90 \<or> 97 \<le> n \<and> n \<le> 122 \<or> n = 95) \<and>
      list_all (\<lambda>c. let n = (of_char c :: nat)
                  in 65 \<le> n \<and> n \<le> 90 \<or> 97 \<le> n \<and> n \<le> 122 \<or> n = 95 \<or> 48 \<le> n \<and> n \<le> 57)
        (tl e))"

fun field :: "string \<Rightarrow> json \<Rightarrow> json" where
  "field k (JObj kvs) = (case map_of (rev kvs) k of Some v \<Rightarrow> v | None \<Rightarrow> JNull)"
| "field k v = JNull"

definition jmespath_Search :: "env \<Rightarrow> string \<Rightarrow> json \<Rightarrow> string + json" where
  "jmespath_Search env e data = (if isIdentifier e then Inr (field e data) else Search env e data)"

text \<open>\<^verbatim>\<open>fmt.Sprintf("%v", sr)\<close>.\<close>

fun Sprintf_v :: "env \<Rightarrow> json \<Rightarrow> string" where
  "Sprintf_v env JNull = ''<nil>''"
| "Sprintf_v env (JStr s) = s"
| "Sprintf_v env (JBool b) = (if b then ''true'' else ''false'')"
| "Sprintf_v env v = Format env v"

text \<open>
  \<^verbatim>\<open>json.Unmarshal(raw, &r)\<close> for a string \<open>r\<close> that is still empty: a JSON string gives
  its content, null leaves \<open>r\<close> empty, anything else is an error.
\<close>

fun unmarshalString :: "json option \<Rightarrow> string + string" where
  "unmarshalString (Some (JStr s)) = Inr s"
| "unmarshalString (Some JNull) = Inr []"
| "unmarshalString _ = Inl ''Failed to unmarshal JSON result''"

text \<open>Lines 296 to 315 and 354 to 374 of the second listing: the text \<open>r\<close> of one result.\<close>

definition extractText :: "env \<Rightarrow> string \<Rightarrow> json option \<Rightarrow> string + string" where
  "extractText env path raw =
     (if TrimSpace path \<noteq> [] then
        (case raw of
           None \<Rightarrow> Inl ''Failed to unmarshal JSON result''
         | Some jsonData \<Rightarrow>
             (case jmespath_Search env path jsonData of
                Inl e \<Rightarrow> Inl (''jmespath failed, '' @ e)
              | Inr sr \<Rightarrow> Inr (Sprintf_v env sr)))
      else unmarshalString raw)"

text \<open>Lines 136 to 151 of the first listing (single calls).\<close>

definition extract_v1 :: "env \<Rightarrow> string \<Rightarrow> json \<Rightarrow> string + string" where
  "extract_v1 env path result =
     (if path \<noteq> [] then
        (case jmespath_Search env path result of
           Inl e \<Rightarrow> Inl (''jmespath failed, '' @ e)
         | Inr sr \<Rightarrow> Inr (Sprintf_v env sr))
      else Marshal env result)"

subsection \<open>parseJSONRPCParams\<close>

datatype ParseError = ParseError

fun balanced :: "nat \<Rightarrow> string \<Rightarrow> bool" where
  "balanced depth [] = (depth = 0)"
| "balanced depth (c # cs) =
     (if c = CHR ''{'' then balanced (depth + 1) cs
      else if c = CHR ''}'' then (depth \<noteq> 0 \<and> balanced (depth - 1) cs)
      else balanced depth cs)"

fun parseFields :: "string list \<Rightarrow> (string \<times> string) list option" where
  "parseFields [] = Some []"
| "parseFields (kv # kvs) =
     (if CHR '':'' \<notin> set kv then None
      else case parseFields kvs of
             None \<Rightarrow> None
           | Some fs \<Rightarrow>
               let k = takeWhile (\<lambda>c. c \<noteq> CHR '':'') kv;
                   v = tl (dropWhile (\<lambda>c. c \<noteq> CHR '':'') kv)
               in Some (if v = [] then fs else (k, v) # fs))"

text \<open>
  Modelled from the spec: \<^verbatim>\<open>parseJSONRPCParams\<close> is called by the second listing and is not
  among the source files. Section 4.1 of the specification: it "parses the brace-delimited
  object into a mapping of field name to value (empty values are omitted, not encoded as
  empty strings), then appends any remaining comma-separated literal arguments as-is. Fails
  with a ParseError if braces are unbalanced or a key has no matching structure."
\<close>

definition parseJSONRPCParams :: "string \<Rightarrow> ParseError + arg list" where
  "parseJSONRPCParams text0 =
     (if \<not> balanced 0 text0 then Inl ParseError
      else if text0 = [] then Inr []
      else if hd text0 = CHR ''{'' then
        (let body = takeWhile (\<lambda>c. c \<noteq> CHR ''}'') (tl text0);
             rest = tl (dropWhile (\<lambda>c. c \<noteq> CHR ''}'') text0)
         in case parseFields (if body = [] then [] else Split body) of
              None \<Rightarrow> Inl ParseError
            | Some fs \<Rightarrow>
                Inr (Object fs # (if rest = [] then [] else map Str (Split (tl rest)))))
      else Inr (map Str (Split text0)))"

section \<open>The JSON-RPC prober: ProbeJSONRPC\<close>

text \<open>
  \<^verbatim>\<open>prober/jsonrpc.go\<close> holds two listings of \<^verbatim>\<open>ProbeJSONRPC\<close>. The first (lines 87 to
  209) builds the arguments with \<^verbatim>\<open>stringsToSlice\<close> and receives decoded results; the
  second (lines 242 to 388) builds them with \<^verbatim>\<open>parseJSONRPCParams\<close> and receives raw
  messages. They are \<open>ProbeJSONRPC_v1\<close> and \<open>ProbeJSONRPC\<close> here. Both return a
  boolean; the model returns \<open>Inr\<close> of it, or \<open>Inl\<close> of the panic that ends the call, and
  the state the call leaves.
\<close>

record columns =
  methods :: "string list"
  args :: "string list"
  decimals :: "string list"
  tags :: "string list"
  resultJMESPath :: "string list"

definition columns_of :: "Values \<Rightarrow> columns" where
  "columns_of params =
     \<lparr>methods = values_of params ''method'', args = values_of params ''arg'',
      decimals = values_of params ''decimal'', tags = values_of params ''tag'',
      resultJMESPath = values_of params ''resultJMESPath''\<rparr>"

text \<open>The two checks of lines 103 to 111 (and 258 to 266).\<close>

definition columns_empty :: "columns \<Rightarrow> bool" where
  "columns_empty c =
     (length (methods c) = 0 \<or> length (args c) = 0 \<or> length (decimals c) = 0 \<or>
      length (tags c) = 0 \<or> length (resultJMESPath c) = 0)"

definition columns_differ :: "columns \<Rightarrow> bool" where
  "columns_differ c =
     (length (methods c) \<noteq> length (args c) \<or> length (methods c) \<noteq> length (decimals c) \<or>
      length (methods c) \<noteq> length (tags c) \<or> length (methods c) \<noteq> length (resultJMESPath c))"

definition with_scheme :: "string \<Rightarrow> string" where
  "with_scheme target =
     (if \<not> HasPrefix target ''http://'' \<and> \<not> HasPrefix target ''https://''
      then ''http://'' @ target else target)"

text \<open>
  The tail of each loop body: parse the scale (the error of \<^verbatim>\<open>ParseInt\<close> is dropped),
  normalize, look the gauge up, set it. \<open>echo\<close> is the text of the \<^verbatim>\<open>params\<close> label.
\<close>

definition observe ::
  "string \<Rightarrow> columns \<Rightarrow> nat \<Rightarrow> string \<Rightarrow> string \<Rightarrow> world \<Rightarrow> fault + world" where
  "observe target c i echo r w =
     (let decimalsInt = fst (ParseInt (decimals c ! i))
      in case resultToFloat64WithDecimals r decimalsInt of
           Inl p \<Rightarrow> Inl p
         | Inr v \<Rightarrow>
             (case WithLabelValues (target, methods c ! i, echo, tags c ! i) of
                Inl p \<Rightarrow> Inl p
              | Inr gauge \<Rightarrow> Inr (SetGauge gauge v w)))"

subsection \<open>The second listing\<close>

text \<open>Lines 281 to 328: one call for each descriptor, in index order.\<close>

fun callEach :: "env \<Rightarrow> string \<Rightarrow> columns \<Rightarrow> nat list \<Rightarrow> world \<Rightarrow> (fault + bool) \<times> world" where
  "callEach env target c [] w = (Inr True, w)"
| "callEach env target c (i # rest) w =
     (case parseJSONRPCParams (args c ! i) of
        Inl e \<Rightarrow> (Inr False, w)
      | Inr argsSlice \<Rightarrow>
          (let w1 = send (Single (methods c ! i) argsSlice) w
           in case Call env (methods c ! i) argsSlice of
                Inl e \<Rightarrow> (Inr False, w1)
              | Inr result \<Rightarrow>
                  (case extractText env (resultJMESPath c ! i) result of
                     Inl e \<Rightarrow> (Inr False, w1)
                   | Inr r \<Rightarrow>
                       (case observe target c i (TrimSpace (args c ! i)) r w1 of
                          Inl p \<Rightarrow> (Inl p, w1)
                        | Inr w2 \<Rightarrow> callEach env target c rest w2))))"

text \<open>\<^verbatim>\<open>rpc.BatchElem\<close>; its \<^verbatim>\<open>Result\<close> points to a raw message or to a string.\<close>

datatype result = RawMessage "json option" | StringPtr string

record BatchElem =
  Method :: string
  Args :: "arg list"
  Result :: result
  Error :: "string option"

text \<open>Lines 332 to 345: the batch, or nothing when an argument text does not parse.\<close>

fun buildBatch :: "columns \<Rightarrow> nat list \<Rightarrow> BatchElem list \<Rightarrow> BatchElem list option" where
  "buildBatch c [] batch = Some batch"
| "buildBatch c (i # rest) batch =
     (case parseJSONRPCParams (args c ! i) of
        Inl e \<Rightarrow> None
      | Inr argsSlice \<Rightarrow>
          buildBatch c rest
            (batch @ [\<lparr>Method = methods c ! i, Args = argsSlice,
                       Result = RawMessage None, Error = None\<rparr>]))"

text \<open>
  \<^verbatim>\<open>BatchCall\<close> stores each answer in its element: the raw result, or the error (and
  then the result stays as it was). A result that points to a string is decoded on the spot.
\<close>

fun store :: "string + json option \<Rightarrow> BatchElem \<Rightarrow> BatchElem" where
  "store (Inl err) e = e\<lparr>Error := Some err\<rparr>"
| "store (Inr raw) e =
     (case Result e of
        RawMessage _ \<Rightarrow> e\<lparr>Result := RawMessage raw\<rparr>
      | StringPtr s \<Rightarrow>
          (case raw of
             Some (JStr t) \<Rightarrow> e\<lparr>Result := StringPtr t\<rparr>
           | Some JNull \<Rightarrow> e
           | _ \<Rightarrow> e\<lparr>Error := Some ''cannot unmarshal into Go value of type string''\<rparr>))"

definition BatchCall :: "env \<Rightarrow> BatchElem list \<Rightarrow> string + BatchElem list" where
  "BatchCall env batch =
     (case Batch env (map (\<lambda>e. (Method e, Args e)) batch) of
        Inl err \<Rightarrow> Inl err
      | Inr reply \<Rightarrow> Inr (map (\<lambda>(i, e). store (reply i) e) (zip [0..<length batch] batch)))"

definition raw_of :: "result \<Rightarrow> json option" where
  "raw_of r = (case r of RawMessage raw \<Rightarrow> raw | StringPtr s \<Rightarrow> None)"

text \<open>Lines 352 to 383: one observation for each element of the answered batch.\<close>

fun readEach ::
  "env \<Rightarrow> string \<Rightarrow> columns \<Rightarrow> BatchElem list \<Rightarrow> nat list \<Rightarrow> world \<Rightarrow> (fault + bool) \<times> world" where
  "readEach env target c batch [] w = (Inr True, w)"
| "readEach env target c batch (i # rest) w =
     (case extractText env (resultJMESPath c ! i) (raw_of (Result (batch ! i))) of
        Inl e \<Rightarrow> (Inr False, w)
      | Inr r \<Rightarrow>
          (case observe target c i (TrimSpace (args c ! i)) r w of
             Inl p \<Rightarrow> (Inl p, w)
           | Inr w1 \<Rightarrow> readEach env target c batch rest w1))"

definition ProbeJSONRPC :: "env \<Rightarrow> string \<Rightarrow> Values \<Rightarrow> world \<Rightarrow> (fault + bool) \<times> world" where
  "ProbeJSONRPC env target0 params w =
     (let target = with_scheme target0; c = columns_of params
      in if \<not> Dial env target then (Inr False, w)
         else if columns_empty c then (Inr False, w)
         else if columns_differ c then (Inr False, w)
         else if Get params ''module'' = ''jsonrpc'' then
           (case MustRegister ''probe_jsonrpc'' w of
              Inl p \<Rightarrow> (Inl p, w)
            | Inr w1 \<Rightarrow>
                if Get params ''disableBatch'' = ''true''
                then callEach env target c [0..<length (methods c)] w1
                else
                  (case buildBatch c [0..<length (methods c)] [] of
                     None \<Rightarrow> (Inr False, w1)
                   | Some batch \<Rightarrow>
                       (let w2 = send (Batched (map (\<lambda>e. (Method e, Args e)) batch)) w1
                        in case BatchCall env batch of
                             Inl err \<Rightarrow> (Inr False, w2)
                           | Inr answered \<Rightarrow>
                               readEach env target c answered [0..<length answered] w2)))
         else (Inr True, w))"

subsection \<open>The first listing\<close>

text \<open>Lines 126 to 164.\<close>

fun callEach_v1 :: "env \<Rightarrow> string \<Rightarrow> columns \<Rightarrow> nat list \<Rightarrow> world \<Rightarrow> (fault + bool) \<times> world" where
  "callEach_v1 env target c [] w = (Inr True, w)"
| "callEach_v1 env target c (i # rest) w =
     (let argsSlice = stringsToSlice (args c ! i);
          w1 = send (Single (methods c ! i) argsSlice) w
      in case Call env (methods c ! i) argsSlice of
           Inl e \<Rightarrow> (Inr False, w1)
         | Inr None \<Rightarrow> (Inr False, w1)
         | Inr (Some result) \<Rightarrow>
             (case extract_v1 env (resultJMESPath c ! i) result of
                Inl e \<Rightarrow> (Inr False, w1)
              | Inr r \<Rightarrow>
                  (case observe target c i (args c ! i) r w1 of
                     Inl p \<Rightarrow> (Inl p, w1)
                   | Inr w2 \<Rightarrow> callEach_v1 env target c rest w2)))"

text \<open>Lines 167 to 176.\<close>

definition buildBatch_v1 :: "columns \<Rightarrow> BatchElem list" where
  "buildBatch_v1 c =
     map (\<lambda>i. \<lparr>Method = methods c ! i, Args = stringsToSlice (args c ! i),
               Result = StringPtr [], Error = None\<rparr>)
       [0..<length (methods c)]"

definition string_of :: "result \<Rightarrow> string" where
  "string_of r = (case r of StringPtr s \<Rightarrow> s | RawMessage raw \<Rightarrow> [])"

text \<open>Lines 183 to 204.\<close>

fun readEach_v1 ::
  "env \<Rightarrow> string \<Rightarrow> columns \<Rightarrow> BatchElem list \<Rightarrow> nat list \<Rightarrow> world \<Rightarrow> (fault + bool) \<times> world" where
  "readEach_v1 env target c batch [] w = (Inr True, w)"
| "readEach_v1 env target c batch (i # rest) w =
     (let s = string_of (Result (batch ! i))
      in case (if resultJMESPath c ! i \<noteq> [] then SearchPtr env (resultJMESPath c ! i) s
               else Inr (Inr s)) of
           Inl p \<Rightarrow> (Inl p, w)
         | Inr (Inl e) \<Rightarrow> (Inr False, w)
         | Inr (Inr r) \<Rightarrow>
             (case observe target c i (args c ! i) r w of
                Inl p \<Rightarrow> (Inl p, w)
              | Inr w1 \<Rightarrow> readEach_v1 env target c batch rest w1))"

definition ProbeJSONRPC_v1 :: "env \<Rightarrow> string \<Rightarrow> Values \<Rightarrow> world \<Rightarrow> (fault + bool) \<times> world" where
  "ProbeJSONRPC_v1 env target0 params w =
     (let target = with_scheme target0; c = columns_of params
      in if \<not> Dial env target then (Inr False, w)
         else if columns_empty c then (Inr False, w)
         else if columns_differ c then (Inr False, w)
         else if Get params ''module'' = ''jsonrpc'' then
           (case MustRegister ''probe_jsonrpc'' w of
              Inl p \<Rightarrow> (Inl p, w)
            | Inr w1 \<Rightarrow>
                if Get params ''disableBatch'' = ''true''
                then callEach_v1 env target c [0..<length (methods c)] w1
                else
                  (let batch = buildBatch_v1 c;
                       w2 = send (Batched (map (\<lambda>e. (Method e, Args e)) batch)) w1
                   in case BatchCall env batch of
                        Inl err \<Rightarrow> (Inr False, w2)
                      | Inr answered \<Rightarrow>
                          readEach_v1 env target c answered [0..<length answered] w2))
         else (Inr True, w))"

section \<open>Reference definitions\<close>

text \<open>
  The definitions of this section do not come from the code: they say what a statement of
  the specification means, so that the code can be compared with it.
\<close>

subsection \<open>A mock endpoint and a fresh registry\<close>

text \<open>
  The endpoint of the tests: every call, alone or in a batch, is answered with the same
  canned result. Of the library parameters, \<open>Search\<close> rejects every expression that is not
  a bare identifier; \<open>SearchPtr\<close> panics for a bare identifier (the field lookup reflects on
  what the pointer points to, a string) and rejects every other expression; the two
  formatters are arbitrary.
\<close>

definition mockEnv :: "json \<Rightarrow> env" where
  "mockEnv canned =
     \<lparr>Dial = (\<lambda>target. True),
      Call = (\<lambda>m a. Inr (Some canned)),
      Batch = (\<lambda>reqs. Inr (\<lambda>i. Inr (Some canned))),
      Search = (\<lambda>e data. Inl ''SyntaxError''),
      Format = (\<lambda>v. ''?''),
      Marshal = (\<lambda>v. Inr ''?''),
      SearchPtr = (\<lambda>e s. if isIdentifier e then Inl LibraryPanic else Inr (Inl ''SyntaxError''))\<rparr>"

definition fresh :: world where
  "fresh = \<lparr>Registered = [], Gauges = Map.empty, Wire = []\<rparr>"

text \<open>
  The parameters of the scenario of the specification, without the \<^verbatim>\<open>module\<close> key: one
  call of \<^verbatim>\<open>eth_blockNumber\<close> with no argument, scale 0 and no extraction expression.
\<close>

definition blockNumber :: Values where
  "blockNumber =
     [''method'' \<mapsto> [''eth_blockNumber''], ''arg'' \<mapsto> [[]], ''decimal'' \<mapsto> [''0''],
      ''tag'' \<mapsto> [''BlockNumber''], ''resultJMESPath'' \<mapsto> [[]]]"

subsection \<open>Well-formed columns\<close>

text \<open>
  "The \<^verbatim>\<open>method\<close>, \<^verbatim>\<open>arg\<close>, \<^verbatim>\<open>decimal\<close>, \<^verbatim>\<open>tag\<close>, \<^verbatim>\<open>resultJMESPath\<close> columns
  must all be present and of identical non-zero length."
\<close>

definition well_formed_columns :: "Values \<Rightarrow> bool" where
  "well_formed_columns params =
     (let n = length (values_of params ''method'')
      in 0 < n \<and>
         list_all (\<lambda>k. params k \<noteq> None \<and> length (values_of params k) = n)
           [''method'', ''arg'', ''decimal'', ''tag'', ''resultJMESPath''])"

subsection \<open>The classification of stringsToSlice, in the words of the specification\<close>

definition decimalValue :: "nat \<Rightarrow> string \<Rightarrow> nat" where
  "decimalValue n ds = foldl (\<lambda>n c. n * 10 + digitVal c) n ds"

text \<open>A base-10 signed integer: an optional sign and one decimal digit or more.\<close>

definition signedDecimal :: "string \<Rightarrow> int option" where
  "signedDecimal part =
     (let neg = (part \<noteq> [] \<and> hd part = CHR ''-'');
          ds = (if part \<noteq> [] \<and> (hd part = CHR ''+'' \<or> hd part = CHR ''-'') then tl part
                else part)
      in if ds \<noteq> [] \<and> list_all isDigit ds
         then Some (if neg then - int (decimalValue 0 ds) else int (decimalValue 0 ds))
         else None)"

text \<open>
  "(1) if the trimmed part parses as a base-10 signed integer, emit that integer; (2) else
  if it parses as a boolean literal (\<^verbatim>\<open>true\<close>/\<^verbatim>\<open>false\<close>), emit that boolean; (3) else emit
  the trimmed string unchanged."
\<close>

definition spec_classify :: "string \<Rightarrow> arg" where
  "spec_classify part =
     (case signedDecimal part of
        Some v \<Rightarrow> Int64 v
      | None \<Rightarrow>
          if part = ''true'' then Boolean True
          else if part = ''false'' then Boolean False
          else Str part)"

definition spec_stringsToSlice :: "string \<Rightarrow> arg list" where
  "spec_stringsToSlice s =
     (if s = [] then [] else map (\<lambda>part. spec_classify (TrimSpace part)) (Split s))"

text \<open>
  The classification the code makes: an integer must fit int64, and the boolean literals
  are those of \<^verbatim>\<open>strconv.ParseBool\<close> (of which \<^verbatim>\<open>1\<close> and \<^verbatim>\<open>0\<close> are integers already).
\<close>

definition go_classify :: "string \<Rightarrow> arg" where
  "go_classify part =
     (case signedDecimal part of
        Some v \<Rightarrow> if - (2 ^ 63) \<le> v \<and> v < 2 ^ 63 then Int64 v else Str part
      | None \<Rightarrow>
          if part \<in> set [''t'', ''T'', ''true'', ''TRUE'', ''True''] then Boolean True
          else if part \<in> set [''f'', ''F'', ''false'', ''FALSE'', ''False''] then Boolean False
          else Str part)"

subsection \<open>The decimal normalizer, in the words of the specification\<close>

text \<open>
  "Computes \<^verbatim>\<open>value = bigInteger / 10^scale\<close>": the quotient the code computes for an
  integer, by the calls the code makes.
\<close>

definition scaledQuotient :: "int \<Rightarrow> int \<Rightarrow> fault + float64" where
  "scaledQuotient n scale =
     (case Quo (SetInt n) (NewFloat (Pow10 scale)) of
        Inl p \<Rightarrow> Inl p
      | Inr f \<Rightarrow> Inr (Float64 f))"

text \<open>A well-formed number of a base: one digit or more, nothing else.\<close>

definition allDigits :: "nat \<Rightarrow> string \<Rightarrow> bool" where
  "allDigits base ds = (ds \<noteq> [] \<and> list_all (\<lambda>c. bigDigit c < base) ds)"

definition digitsValue :: "nat \<Rightarrow> string \<Rightarrow> nat" where
  "digitsValue base ds = foldl (\<lambda>n c. n * base + bigDigit c) 0 ds"

text \<open>
  A text denotes the integer \<open>n\<close>: the prefix \<^verbatim>\<open>0x\<close> and hexadecimal digits, or decimal
  digits.
\<close>

definition denotes :: "string \<Rightarrow> nat \<Rightarrow> bool" where
  "denotes text0 n =
     (HasPrefix text0 ''0x'' \<and> allDigits 16 (TrimPrefix text0 ''0x'') \<and> n = digitsValue 16 (TrimPrefix text0 ''0x'') \<or>
      allDigits 10 text0 \<and> n = digitsValue 10 text0)"

text \<open>"The correctly-rounded value of the exact quotient": the float64 nearest to \<open>n / 10\<^sup>d\<close>.\<close>

definition correctlyRounded :: "nat \<Rightarrow> nat \<Rightarrow> float64" where
  "correctlyRounded n d = round64 False n (10 ^ d)"

text \<open>
  The exact quotient rounded twice: to \<open>max(BitLen(n), 64)\<close> bits first, the precision of
  the \<^verbatim>\<open>big.Float\<close> quotient, and from there to float64.
\<close>

definition twiceRounded :: "nat \<Rightarrow> nat \<Rightarrow> float64" where
  "twiceRounded n d =
     (case roundPrec (max (bitLen n) 64) n (10 ^ d) of (m, e) \<Rightarrow> round64Dyadic False m e)"

subsection \<open>Scenarios\<close>

text \<open>The scenario with the module selected, batched and unbatched.\<close>

definition jsonrpc :: Values where
  "jsonrpc = blockNumber(''module'' \<mapsto> [''jsonrpc''])"

definition unbatched :: "Values \<Rightarrow> Values" where
  "unbatched params = params(''disableBatch'' \<mapsto> [''true''])"

text \<open>The label tuple of the scenario's only descriptor.\<close>

definition labels :: "string \<times> string \<times> string \<times> string" where
  "labels = (''http://rpc.example'', ''eth_blockNumber'', [], ''BlockNumber'')"

text \<open>The scenario with an extraction expression that is blank, and one that does not parse.\<close>

definition broken :: Values where
  "broken = jsonrpc(''resultJMESPath'' \<mapsto> [''balance[''])"

definition blank :: Values where
  "blank = jsonrpc(''resultJMESPath'' \<mapsto> [''  ''])"

text \<open>
  The scenario with the extraction expression \<^verbatim>\<open>balance\<close>, and a result that is an object
  with the one member \<^verbatim>\<open>totalBalance\<close>.
\<close>

definition balance :: Values where
  "balance = jsonrpc(''resultJMESPath'' \<mapsto> [''balance''])"

definition totalBalance :: json where
  "totalBalance = JObj [(''totalBalance'', JStr ''0x10'')]"

text \<open>Two descriptors, the second with an argument text whose brace is never closed.\<close>

definition unclosed :: Values where
  "unclosed =
     [''module'' \<mapsto> [''jsonrpc''], ''method'' \<mapsto> [''eth_blockNumber'', ''eth_call''],
      ''arg'' \<mapsto> [[], ''{''], ''decimal'' \<mapsto> [''0'', ''0''],
      ''tag'' \<mapsto> [''BlockNumber'', ''Owner''], ''resultJMESPath'' \<mapsto> [[], []]]"

text \<open>The batch element of the descriptor \<open>i\<close> when its argument text parses (line 339).\<close>

definition element :: "columns \<Rightarrow> nat \<Rightarrow> BatchElem" where
  "element c i =
     \<lparr>Method = methods c ! i,
      Args = (case parseJSONRPCParams (args c ! i) of Inr a \<Rightarrow> a | Inl e \<Rightarrow> []),
      Result = RawMessage None, Error = None\<rparr>"

text \<open>"A mock RPC endpoint that returns the same canned result for every call."\<close>

definition answers :: "env \<Rightarrow> json option \<Rightarrow> bool" where
  "answers env canned =
     ((\<forall>m a. Call env m a = Inr canned) \<and> (\<forall>reqs. Batch env reqs = Inr (\<lambda>i. Inr canned)))"

text \<open>What the two executions may differ in is the wire; the metrics are the rest.\<close>

definition metrics :: "world \<Rightarrow> string list \<times> (string \<times> string \<times> string \<times> string \<rightharpoonup> float64)" where
  "metrics w = (Registered w, Gauges w)"

subsection \<open>The result extractor, in the words of the specification\<close>

text \<open>
  The scalar of a raw result when there is no extraction expression, as the code takes it:
  the content of a JSON string, the empty text for null, and nothing for any other value.
\<close>

definition scalar :: "json option \<Rightarrow> string option" where
  "scalar raw =
     (case raw of
        Some (JStr s) \<Rightarrow> Some s
      | Some JNull \<Rightarrow> Some []
      | _ \<Rightarrow> None)"

text \<open>"A field that is absent from the decoded JSON result."\<close>

definition absent :: "string \<Rightarrow> json \<Rightarrow> bool" where
  "absent k data = (case data of JObj kvs \<Rightarrow> k \<notin> set (map fst kvs) | _ \<Rightarrow> True)"

section \<open>Verification\<close>

subsection \<open>Evaluation rules\<close>

lemmas strings_eval =
  HasPrefix_def TrimPrefix_def TrimSpace_def whiteSpace_def

lemmas strconv_eval =
  ParseInt_def ParseUint_def isDigit_def digitVal_def maxUint64_def ParseBool_def Let_def

lemmas float_eval =
  ilog2_def roundEven_def roundAt_def roundPrec_def finite64_def round64_def Let_def
  round64Dyadic_def pow10tab_def pow10postab32_def pow10negtab32_def Pow10_def bigDigit_def
  SetString_def SetInt_def Quo_def Float64_def resultToFloat64WithDecimals_def
  HasPrefix_def TrimPrefix_def

lemmas params_eval =
  values_of_def Get_def columns_of_def columns_empty_def columns_differ_def
  well_formed_columns_def with_scheme_def HasPrefix_def

subsection \<open>The precondition on the columns\<close>

lemma values_of_present: "values_of params k \<noteq> [] \<Longrightarrow> \<exists>vs. params k = Some vs"
  by (cases "params k") (auto simp: values_of_def)

lemma not_well_formed:
  assumes "\<not> well_formed_columns params"
  shows "columns_empty (columns_of params) \<or> columns_differ (columns_of params)"
proof (rule ccontr)
  assume a: "\<not> (columns_empty (columns_of params) \<or> columns_differ (columns_of params))"
  then have ne: "values_of params ''method'' \<noteq> []" "values_of params ''arg'' \<noteq> []"
      "values_of params ''decimal'' \<noteq> []" "values_of params ''tag'' \<noteq> []"
      "values_of params ''resultJMESPath'' \<noteq> []"
    and len: "length (values_of params ''arg'') = length (values_of params ''method'')"
      "length (values_of params ''decimal'') = length (values_of params ''method'')"
      "length (values_of params ''tag'') = length (values_of params ''method'')"
      "length (values_of params ''resultJMESPath'') = length (values_of params ''method'')"
    by (simp_all add: columns_empty_def columns_differ_def columns_of_def)
  from ne [THEN values_of_present] ne(1) len have "well_formed_columns params"
    unfolding well_formed_columns_def Let_def by simp
  with assms show False by contradiction
qed

lemma well_formed:
  assumes "well_formed_columns params"
  shows "\<not> columns_empty (columns_of params) \<and> \<not> columns_differ (columns_of params)"
  using assms
  unfolding well_formed_columns_def columns_empty_def columns_differ_def columns_of_def Let_def
  by auto

text \<open>
  C2. When the five columns are not all present with the same non-zero length, the empty
  parameter map included, \<^verbatim>\<open>ProbeJSONRPC\<close> returns false and leaves the state as it found
  it: no request has been sent, no collector registered and no gauge value set. This holds
  for both listings and whatever the endpoint would answer.
\<close>

theorem ProbeJSONRPC_bad_columns:
  assumes "\<not> well_formed_columns params"
  shows "ProbeJSONRPC env target params w = (Inr False, w) \<and>
         ProbeJSONRPC_v1 env target params w = (Inr False, w)"
  using not_well_formed [OF assms]
  by (auto simp: ProbeJSONRPC_def ProbeJSONRPC_v1_def Let_def)

theorem ProbeJSONRPC_bad_columns_witness:
  "\<not> well_formed_columns Map.empty \<and>
   \<not> well_formed_columns [''method'' \<mapsto> [''a'', ''b''], ''arg'' \<mapsto> [''1''],
       ''decimal'' \<mapsto> [''0'', ''0''], ''tag'' \<mapsto> [''x'', ''y''],
       ''resultJMESPath'' \<mapsto> [[], []]] \<and>
   ProbeJSONRPC (mockEnv (JStr ''0x1234'')) ''rpc.example'' Map.empty fresh = (Inr False, fresh) \<and>
   ProbeJSONRPC_v1 (mockEnv (JStr ''0x1234'')) ''rpc.example''
     [''method'' \<mapsto> [''a'', ''b''], ''arg'' \<mapsto> [''1''],
      ''decimal'' \<mapsto> [''0'', ''0''], ''tag'' \<mapsto> [''x'', ''y''],
      ''resultJMESPath'' \<mapsto> [[], []]] fresh = (Inr False, fresh)"
proof -
  let ?p = "[''method'' \<mapsto> [''a'', ''b''], ''arg'' \<mapsto> [''1''],
       ''decimal'' \<mapsto> [''0'', ''0''], ''tag'' \<mapsto> [''x'', ''y''],
       ''resultJMESPath'' \<mapsto> [[], []]] :: Values"
  have e: "\<not> well_formed_columns Map.empty"
    by (simp add: params_eval)
  have m: "\<not> well_formed_columns ?p"
    by (simp add: params_eval)
  from ProbeJSONRPC_bad_columns [OF e] ProbeJSONRPC_bad_columns [OF m] e m
  show ?thesis by simp
qed

subsection \<open>The module switch\<close>

text \<open>
  C10, amended. When the columns are well formed and the module is anything but
  \<^verbatim>\<open>jsonrpc\<close> (absent included), \<^verbatim>\<open>ProbeJSONRPC\<close> leaves the state as it found it (no
  collector registered, no gauge value set, no request sent) and returns true when the
  target can be dialed and false when it cannot. Both listings.
\<close>

theorem ProbeJSONRPC_other_module:
  assumes "well_formed_columns params"
    and "Get params ''module'' \<noteq> ''jsonrpc''"
  shows "(Dial env (with_scheme target) \<longrightarrow>
            ProbeJSONRPC env target params w = (Inr True, w) \<and>
            ProbeJSONRPC_v1 env target params w = (Inr True, w)) \<and>
         (\<not> Dial env (with_scheme target) \<longrightarrow>
            ProbeJSONRPC env target params w = (Inr False, w) \<and>
            ProbeJSONRPC_v1 env target params w = (Inr False, w))"
  using well_formed [OF assms(1)] assms(2)
  by (auto simp: ProbeJSONRPC_def ProbeJSONRPC_v1_def Let_def)

theorem ProbeJSONRPC_other_module_witness:
  "well_formed_columns blockNumber \<and> Get blockNumber ''module'' \<noteq> ''jsonrpc'' \<and>
   well_formed_columns (blockNumber(''module'' \<mapsto> [''http''])) \<and>
   Get (blockNumber(''module'' \<mapsto> [''http''])) ''module'' \<noteq> ''jsonrpc'' \<and>
   Dial (mockEnv (JStr ''0x1234'')) (with_scheme ''rpc.example'') \<and>
   ProbeJSONRPC (mockEnv (JStr ''0x1234'')) ''rpc.example'' blockNumber fresh = (Inr True, fresh) \<and>
   ProbeJSONRPC_v1 (mockEnv (JStr ''0x1234'')) ''rpc.example''
     (blockNumber(''module'' \<mapsto> [''http''])) fresh = (Inr True, fresh) \<and>
   \<not> Dial ((mockEnv (JStr ''0x1234''))\<lparr>Dial := (\<lambda>t. t \<noteq> ''http://[::1'')\<rparr>) (with_scheme ''[::1'') \<and>
   ProbeJSONRPC ((mockEnv (JStr ''0x1234''))\<lparr>Dial := (\<lambda>t. t \<noteq> ''http://[::1'')\<rparr>)
     ''[::1'' blockNumber fresh = (Inr False, fresh) \<and>
   ProbeJSONRPC_v1 ((mockEnv (JStr ''0x1234''))\<lparr>Dial := (\<lambda>t. t \<noteq> ''http://[::1'')\<rparr>)
     ''[::1'' (blockNumber(''module'' \<mapsto> [''http''])) fresh = (Inr False, fresh)"
proof -
  have a: "well_formed_columns blockNumber" "Get blockNumber ''module'' \<noteq> ''jsonrpc''"
    by (simp_all add: params_eval blockNumber_def)
  have b: "well_formed_columns (blockNumber(''module'' \<mapsto> [''http'']))"
      "Get (blockNumber(''module'' \<mapsto> [''http''])) ''module'' \<noteq> ''jsonrpc''"
    by (simp_all add: params_eval blockNumber_def)
  have d: "Dial (mockEnv (JStr ''0x1234'')) (with_scheme ''rpc.example'')"
    by (simp add: mockEnv_def)
  have n: "\<not> Dial ((mockEnv (JStr ''0x1234''))\<lparr>Dial := (\<lambda>t. t \<noteq> ''http://[::1'')\<rparr>)
      (with_scheme ''[::1'')"
    by (simp add: mockEnv_def params_eval)
  from ProbeJSONRPC_other_module [OF a, THEN conjunct1, rule_format, OF d, THEN conjunct1]
  have 1: "ProbeJSONRPC (mockEnv (JStr ''0x1234'')) ''rpc.example'' blockNumber fresh =
      (Inr True, fresh)" .
  from ProbeJSONRPC_other_module [OF b, THEN conjunct1, rule_format, OF d, THEN conjunct2]
  have 2: "ProbeJSONRPC_v1 (mockEnv (JStr ''0x1234'')) ''rpc.example''
      (blockNumber(''module'' \<mapsto> [''http''])) fresh = (Inr True, fresh)" .
  from ProbeJSONRPC_other_module [OF a, THEN conjunct2, rule_format, OF n, THEN conjunct1]
  have 3: "ProbeJSONRPC ((mockEnv (JStr ''0x1234''))\<lparr>Dial := (\<lambda>t. t \<noteq> ''http://[::1'')\<rparr>)
      ''[::1'' blockNumber fresh = (Inr False, fresh)" .
  from ProbeJSONRPC_other_module [OF b, THEN conjunct2, rule_format, OF n, THEN conjunct2]
  have 4: "ProbeJSONRPC_v1 ((mockEnv (JStr ''0x1234''))\<lparr>Dial := (\<lambda>t. t \<noteq> ''http://[::1'')\<rparr>)
      ''[::1'' (blockNumber(''module'' \<mapsto> [''http''])) fresh = (Inr False, fresh)" .
  from a b d n 1 2 3 4 show ?thesis by blast
qed

text \<open>
  C10 as stated fails for a target that cannot be dialed: \<^verbatim>\<open>ethclient.Dial\<close> is called
  first (lines 91 to 95 and 246 to 250) and its error makes the probe return false, whatever
  the module. Such a target is \<^verbatim>\<open>[::1\<close>, which becomes \<^verbatim>\<open>http://[::1\<close>, a URL that
  \<^verbatim>\<open>url.Parse\<close> rejects (the bracket of the host is never closed): the columns are well
  formed, the module is absent, and both listings return false, not true.
\<close>

theorem ProbeJSONRPC_other_module_counterexample:
  "well_formed_columns blockNumber \<and> Get blockNumber ''module'' \<noteq> ''jsonrpc'' \<and>
   ProbeJSONRPC ((mockEnv (JStr ''0x1234''))\<lparr>Dial := (\<lambda>t. t \<noteq> ''http://[::1'')\<rparr>)
     ''[::1'' blockNumber fresh = (Inr False, fresh) \<and>
   ProbeJSONRPC_v1 ((mockEnv (JStr ''0x1234''))\<lparr>Dial := (\<lambda>t. t \<noteq> ''http://[::1'')\<rparr>)
     ''[::1'' blockNumber fresh = (Inr False, fresh) \<and>
   ProbeJSONRPC ((mockEnv (JStr ''0x1234''))\<lparr>Dial := (\<lambda>t. t \<noteq> ''http://[::1'')\<rparr>)
     ''[::1'' blockNumber fresh \<noteq> (Inr True, fresh)"
  by (simp add: params_eval blockNumber_def ProbeJSONRPC_def ProbeJSONRPC_v1_def mockEnv_def)

subsection \<open>stringsToSlice\<close>

lemma Split_no_comma: "CHR '','' \<notin> set s \<Longrightarrow> Split s = [s]"
  by (induction s) auto

lemma Split_not_Nil: "Split s \<noteq> []"
  by (induction s) (auto split: list.splits)

text \<open>
  C8. The empty string gives the empty sequence. A text that is a single part, empty once
  trimmed (a blank, say), gives the one-element sequence that holds the empty string. So
  the two differ: "no arguments" against "one empty-string argument".
\<close>

theorem stringsToSlice_empty_and_blank:
  assumes "s \<noteq> []" and "CHR '','' \<notin> set s" and "TrimSpace s = []"
  shows "stringsToSlice [] = [] \<and> stringsToSlice s = [Str []] \<and>
         stringsToSlice s \<noteq> stringsToSlice []"
proof -
  have "classify s = Str []"
    using assms(3) by (simp add: classify_def strconv_eval)
  with assms(1) Split_no_comma [OF assms(2)] show ?thesis
    by (simp add: stringsToSlice_def)
qed

theorem stringsToSlice_empty_and_blank_witness:
  "stringsToSlice [] = [] \<and> stringsToSlice '' '' = [Str []] \<and>
   stringsToSlice '' '' \<noteq> stringsToSlice []"
proof -
  have "TrimSpace '' '' = []" by (simp add: strings_eval)
  from stringsToSlice_empty_and_blank [OF _ _ this] show ?thesis by simp
qed

lemma decimalValue_Cons: "decimalValue n (c # cs) = decimalValue (n * 10 + digitVal c) cs"
  by (simp add: decimalValue_def)

lemma decimalValue_ge: "n \<le> decimalValue n ds"
proof (induction ds arbitrary: n)
  case Nil
  show ?case by (simp add: decimalValue_def)
next
  case (Cons c cs)
  have "n \<le> n * 10 + digitVal c" by simp
  also have "\<dots> \<le> decimalValue (n * 10 + digitVal c) cs" by (rule Cons.IH)
  finally show ?case by (simp add: decimalValue_Cons)
qed

text \<open>The digit loop with its overflow checks computes the value, or reports the range.\<close>

lemma ParseUintLoop_digits:
  "list_all isDigit ds \<Longrightarrow> n \<le> maxUint64 \<Longrightarrow>
   ParseUintLoop n ds =
     (if decimalValue n ds \<le> maxUint64 then (decimalValue n ds, None)
      else (maxUint64, Some ErrRange))"
proof (induction ds arbitrary: n)
  case Nil
  then show ?case by (simp add: decimalValue_def)
next
  case (Cons c cs)
  let ?n1 = "n * 10 + digitVal c"
  have dig: "isDigit c" and rest: "list_all isDigit cs" using Cons.prems(1) by simp_all
  have ge: "?n1 \<le> decimalValue ?n1 cs" by (rule decimalValue_ge)
  show ?case
  proof (cases "n \<ge> maxUint64 div 10 + 1 \<or> ?n1 > maxUint64")
    case True
    then have "?n1 > maxUint64" by (auto simp: maxUint64_def)
    with ge have "\<not> decimalValue ?n1 cs \<le> maxUint64" by linarith
    with True dig show ?thesis by (auto simp: decimalValue_Cons)
  next
    case False
    then have le: "?n1 \<le> maxUint64" and nc: "\<not> n \<ge> maxUint64 div 10 + 1" by auto
    from Cons.IH [OF rest le] dig le nc show ?thesis
      by (simp add: decimalValue_Cons)
  qed
qed

lemma ParseUintLoop_nondigit:
  "\<not> list_all isDigit ds \<Longrightarrow> snd (ParseUintLoop n ds) \<noteq> None"
  by (induction ds arbitrary: n) auto

lemma ParseUintLoop_range:
  "ParseUintLoop n ds = (u, Some ErrRange) \<Longrightarrow> u = maxUint64"
  by (induction ds arbitrary: n) (auto split: if_splits)

lemma ParseUint_shape:
  "(ParseUint s = (decimalValue 0 s, None) \<and> s \<noteq> [] \<and> list_all isDigit s
      \<and> decimalValue 0 s \<le> maxUint64)
   \<or> (ParseUint s = (maxUint64, Some ErrRange)
      \<and> (s \<noteq> [] \<and> list_all isDigit s \<longrightarrow> decimalValue 0 s > maxUint64))
   \<or> (snd (ParseUint s) = Some ErrSyntax \<and> \<not> (s \<noteq> [] \<and> list_all isDigit s))"
proof (cases "s = []")
  case True
  then show ?thesis by (simp add: ParseUint_def)
next
  case ne: False
  show ?thesis
  proof (cases "list_all isDigit s")
    case True
    from ParseUintLoop_digits [OF True, of 0] ne True show ?thesis
      by (auto simp: ParseUint_def)
  next
    case False
    obtain u e where ue: "ParseUintLoop 0 s = (u, e)" by (cases "ParseUintLoop 0 s")
    from ParseUintLoop_nondigit [OF False, of 0] ue obtain err where e: "e = Some err"
      by (cases e) auto
    show ?thesis
    proof (cases err)
      case ErrSyntax
      with ue e ne False show ?thesis by (simp add: ParseUint_def)
    next
      case ErrRange
      with ue e have "u = maxUint64" using ParseUintLoop_range by blast
      with ue e ErrRange ne False show ?thesis by (simp add: ParseUint_def)
    qed
  qed
qed

text \<open>\<^verbatim>\<open>ParseInt\<close> succeeds exactly on the signed decimals that fit int64.\<close>

lemma ParseInt_ok_iff:
  "ParseInt part = (v, None) \<longleftrightarrow>
   signedDecimal part = Some v \<and> - (2 ^ 63) \<le> v \<and> v < 2 ^ 63"
proof (cases "part = []")
  case True
  then show ?thesis by (simp add: ParseInt_def signedDecimal_def)
next
  case ne: False
  define s1 where "s1 = (if hd part = CHR ''+'' \<or> hd part = CHR ''-'' then tl part else part)"
  define neg where "neg = (hd part = CHR ''-'')"
  define d where "d = decimalValue 0 s1"
  have sd: "signedDecimal part =
      (if s1 \<noteq> [] \<and> list_all isDigit s1 then Some (if neg then - int d else int d) else None)"
    using ne unfolding signedDecimal_def s1_def neg_def d_def Let_def by simp
  have pi: "ParseInt part =
      (case ParseUint s1 of (un, err) \<Rightarrow>
         if err = Some ErrSyntax then (0, err)
         else if \<not> neg \<and> un \<ge> 2 ^ 63 then (2 ^ 63 - 1, Some ErrRange)
         else if neg \<and> un > 2 ^ 63 then (- (2 ^ 63), Some ErrRange)
         else (if neg then - int un else int un, None))"
    using ne unfolding ParseInt_def s1_def neg_def Let_def by simp
  from ParseUint_shape [of s1] consider
      (ok) "ParseUint s1 = (d, None)" "s1 \<noteq> []" "list_all isDigit s1" "d \<le> maxUint64"
    | (range) "ParseUint s1 = (maxUint64, Some ErrRange)"
        "s1 \<noteq> [] \<and> list_all isDigit s1 \<longrightarrow> d > maxUint64"
    | (malformed) "snd (ParseUint s1) = Some ErrSyntax" "\<not> (s1 \<noteq> [] \<and> list_all isDigit s1)"
    unfolding d_def by blast
  then show ?thesis
  proof cases
    case ok
    have "int d \<ge> 2 ^ 63 \<longleftrightarrow> d \<ge> 2 ^ 63" "int d > 2 ^ 63 \<longleftrightarrow> d > 2 ^ 63"
      by simp_all
    with ok show ?thesis unfolding pi sd by (cases neg) auto
  next
    case range
    have "ParseInt part \<noteq> (v, None)"
      unfolding pi range(1) by (simp add: maxUint64_def)
    moreover have "\<not> (signedDecimal part = Some v \<and> - (2 ^ 63) \<le> v \<and> v < 2 ^ 63)"
    proof (cases "s1 \<noteq> [] \<and> list_all isDigit s1")
      case True
      with range(2) have "d > maxUint64" by simp
      then have "int d > 18446744073709551615" by (simp add: maxUint64_def)
      with True show ?thesis unfolding sd by (cases neg) auto
    next
      case False
      then show ?thesis unfolding sd by auto
    qed
    ultimately show ?thesis by blast
  next
    case malformed
    obtain un err where ue: "ParseUint s1 = (un, err)" by (cases "ParseUint s1")
    with malformed(1) have "err = Some ErrSyntax" by simp
    with ue have "ParseInt part = (0, Some ErrSyntax)" unfolding pi by simp
    with malformed(2) show ?thesis unfolding sd by auto
  qed
qed

lemma classify_eq: "classify part0 = go_classify (TrimSpace part0)"
proof -
  define part where "part = TrimSpace part0"
  obtain v e where pe: "ParseInt part = (v, e)" by (cases "ParseInt part")
  show ?thesis
  proof (cases e)
    case None
    with pe ParseInt_ok_iff [of part v] show ?thesis
      by (simp add: classify_def go_classify_def part_def [symmetric])
  next
    case (Some err)
    have nodigit: "signedDecimal part = None \<Longrightarrow> part \<noteq> ''1'' \<and> part \<noteq> ''0''"
      by (auto simp: signedDecimal_def isDigit_def)
    show ?thesis
    proof (cases "signedDecimal part")
      case None
      with nodigit pe Some show ?thesis
        by (simp add: classify_def go_classify_def part_def [symmetric] ParseBool_def)
    next
      case (Some w)
      with pe \<open>e = Some err\<close> ParseInt_ok_iff [of part w]
      have out: "\<not> (- (2 ^ 63) \<le> w \<and> w < 2 ^ 63)" by auto
      have "part \<noteq> ''1''" "part \<noteq> ''0''"
        using Some out
        by (auto simp: signedDecimal_def isDigit_def decimalValue_def digitVal_def)
      moreover have "part \<notin> set [''t'', ''T'', ''true'', ''TRUE'', ''True'',
          ''f'', ''F'', ''false'', ''FALSE'', ''False'']"
        using Some by (auto simp: signedDecimal_def isDigit_def split: if_splits)
      ultimately have "ParseBool part = None" by (simp add: ParseBool_def)
      with pe \<open>e = Some err\<close> Some out show ?thesis
        by (simp add: classify_def go_classify_def part_def [symmetric])
    qed
  qed
qed

text \<open>
  C5, amended. For every input, \<^verbatim>\<open>stringsToSlice\<close> gives nothing for the empty text and
  otherwise splits on commas, trims each part and classifies the parts in order: a signed
  decimal that fits int64 becomes that integer; otherwise one of \<^verbatim>\<open>t\<close>, \<^verbatim>\<open>T\<close>,
  \<^verbatim>\<open>true\<close>, \<^verbatim>\<open>TRUE\<close>, \<^verbatim>\<open>True\<close> becomes true and one of \<^verbatim>\<open>f\<close>, \<^verbatim>\<open>F\<close>, \<^verbatim>\<open>false\<close>,
  \<^verbatim>\<open>FALSE\<close>, \<^verbatim>\<open>False\<close> becomes false; everything else, a decimal outside int64
  included, stays the trimmed string. The example of the claim holds:
  \<^verbatim>\<open>42,true,hello,0xabc\<close> gives 42, true, \<^verbatim>\<open>hello\<close> and the string \<^verbatim>\<open>0xabc\<close>.
\<close>

theorem stringsToSlice_classifies:
  "stringsToSlice s =
     (if s = [] then [] else map (\<lambda>part. go_classify (TrimSpace part)) (Split s)) \<and>
   stringsToSlice ''42,true,hello,0xabc'' =
     [Int64 42, Boolean True, Str ''hello'', Str ''0xabc'']"
proof -
  have "classify = (\<lambda>part. go_classify (TrimSpace part))"
    by (rule ext) (rule classify_eq)
  then have "stringsToSlice s =
     (if s = [] then [] else map (\<lambda>part. go_classify (TrimSpace part)) (Split s))"
    by (simp add: stringsToSlice_def)
  moreover have "stringsToSlice ''42,true,hello,0xabc'' =
     [Int64 42, Boolean True, Str ''hello'', Str ''0xabc'']"
    by (simp add: stringsToSlice_def classify_def strings_eval strconv_eval)
  ultimately show ?thesis by blast
qed

theorem stringsToSlice_classifies_witness:
  "stringsToSlice '' 10 , true , hello '' =
     map (\<lambda>part. go_classify (TrimSpace part)) (Split '' 10 , true , hello '') \<and>
   stringsToSlice '' 10 , true , hello '' = [Int64 10, Boolean True, Str ''hello'']"
proof -
  have "stringsToSlice '' 10 , true , hello '' = [Int64 10, Boolean True, Str ''hello'']"
    by (simp add: stringsToSlice_def classify_def strings_eval strconv_eval)
  with stringsToSlice_classifies [of "'' 10 , true , hello ''"] show ?thesis by simp
qed

text \<open>
  C5 as stated fails: \<^verbatim>\<open>t\<close> is not the literal \<^verbatim>\<open>true\<close>, so the claim keeps it as a
  string, and the code makes it the boolean true (\<^verbatim>\<open>strconv.ParseBool\<close> accepts it).
\<close>

theorem stringsToSlice_classifies_counterexample:
  "stringsToSlice ''t'' = [Boolean True] \<and> spec_stringsToSlice ''t'' = [Str ''t''] \<and>
   stringsToSlice ''t'' \<noteq> spec_stringsToSlice ''t''"
  by (simp add: stringsToSlice_def classify_def spec_stringsToSlice_def spec_classify_def
      signedDecimal_def strings_eval strconv_eval)

subsection \<open>Rounding\<close>

lemma bitLen_pos: "0 < n \<Longrightarrow> 0 < bitLen n"
  by (subst bitLen.simps) simp

lemma bitLen_bounds: "0 < n \<Longrightarrow> 2 ^ (bitLen n - 1) \<le> n \<and> n < 2 ^ bitLen n"
proof (induction n rule: bitLen.induct)
  case (1 n)
  show ?case
  proof (cases "n div 2 = 0")
    case True
    with 1(2) have "n = 1" by (cases n) auto
    then show ?thesis by (simp add: bitLen.simps [of 1] bitLen.simps [of 0])
  next
    case False
    then have pos: "0 < n div 2" by simp
    from 1(1) [OF _ pos] 1(2)
    have ih: "2 ^ (bitLen (n div 2) - 1) \<le> n div 2" "n div 2 < 2 ^ bitLen (n div 2)" by auto
    have bl: "bitLen n = Suc (bitLen (n div 2))" using 1(2) by (subst bitLen.simps) simp
    from bitLen_pos [OF pos] obtain j where j: "bitLen (n div 2) = Suc j"
      by (cases "bitLen (n div 2)") auto
    from ih(1) j have "2 * 2 ^ j \<le> 2 * (n div 2)" by simp
    also have "\<dots> \<le> n" by simp
    finally have lo: "2 ^ (bitLen n - 1) \<le> n" by (simp add: bl j)
    from ih(2) have "n div 2 + 1 \<le> 2 ^ bitLen (n div 2)" by simp
    then have "2 * (n div 2) + 2 \<le> 2 * 2 ^ bitLen (n div 2)" by simp
    moreover have "n \<le> 2 * (n div 2) + 1" by presburger
    ultimately have "n < 2 ^ bitLen n" by (simp add: bl)
    with lo show ?thesis by simp
  qed
qed

lemma bitLen_unique: "2 ^ k \<le> n \<Longrightarrow> n < 2 ^ Suc k \<Longrightarrow> bitLen n = Suc k"
proof -
  assume a: "2 ^ k \<le> n" and b: "n < 2 ^ Suc k"
  have "(0::nat) < 2 ^ k" by simp
  with a have pos: "0 < n" by linarith
  from bitLen_bounds [OF pos] have lo: "2 ^ (bitLen n - 1) \<le> n" and hi: "n < 2 ^ bitLen n" by auto
  from a hi have "(2::nat) ^ k < 2 ^ bitLen n" by linarith
  then have 1: "k < bitLen n" by (rule power_less_imp_less_exp [rotated]) simp
  from lo b have "(2::nat) ^ (bitLen n - 1) < 2 ^ Suc k" by linarith
  then have 2: "bitLen n - 1 < Suc k" by (rule power_less_imp_less_exp [rotated]) simp
  from 1 2 show ?thesis by linarith
qed

lemma bitLen_mono: "m \<le> n \<Longrightarrow> bitLen m \<le> bitLen n"
proof (cases "m = 0")
  case True
  then show ?thesis by simp
next
  case False
  assume le: "m \<le> n"
  with False have pm: "0 < m" and pn: "0 < n" by auto
  from bitLen_bounds [OF pm] bitLen_bounds [OF pn] le
  have "(2::nat) ^ (bitLen m - 1) < 2 ^ bitLen n" by linarith
  then have "bitLen m - 1 < bitLen n" by (rule power_less_imp_less_exp [rotated]) simp
  with bitLen_pos [OF pm] show ?thesis by linarith
qed

text \<open>\<open>between a b k\<close>: \<open>2\<^sup>k \<le> a / b < 2\<^sup>k\<^sup>+\<^sup>1\<close>, without fractions.\<close>

definition between :: "nat \<Rightarrow> nat \<Rightarrow> int \<Rightarrow> bool" where
  "between a b k =
     (if 0 \<le> k then b * 2 ^ nat k \<le> a \<and> a < b * 2 ^ nat (k + 1)
      else b \<le> a * 2 ^ nat (- k) \<and> a * 2 ^ nat (- k) < 2 * b)"

lemma between_scale: "0 < c \<Longrightarrow> between (c * a) (c * b) k = between a b k"
  by (simp add: between_def mult.assoc)

lemma pow2_split: "j \<le> k \<Longrightarrow> (2::nat) ^ k = 2 ^ j * 2 ^ (k - j)"
  by (metis le_add_diff_inverse power_add)

lemma between_unique:
  assumes "between a b j" and "between a b k" and "0 < b"
  shows "j = k"
proof (rule ccontr)
  assume ne: "j \<noteq> k"
  have aux: False if jk: "j < k" and bj: "between a b j" and bk: "between a b k" for j k
  proof -
    consider (pp) "0 \<le> j" | (np) "j < 0" "0 \<le> k" | (nn) "k < 0" using jk by linarith
    then show False
    proof cases
      case pp
      with jk bj bk have 1: "a < b * 2 ^ nat (j + 1)" and 2: "b * 2 ^ nat k \<le> a"
        by (auto simp: between_def)
      from jk pp have "nat (j + 1) \<le> nat k" by linarith
      then have "(2::nat) ^ nat (j + 1) \<le> 2 ^ nat k" by (rule power_increasing) simp
      then have "b * 2 ^ nat (j + 1) \<le> b * 2 ^ nat k" by simp
      with 1 2 show False by linarith
    next
      case np
      with bj bk have 1: "a * 2 ^ nat (- j) < 2 * b" and 2: "b * 2 ^ nat k \<le> a"
        by (auto simp: between_def)
      from np have "(2::nat) ^ 1 \<le> 2 ^ nat (- j)" by (intro power_increasing) auto
      then have "a * 2 \<le> a * 2 ^ nat (- j)" by simp
      moreover have "b \<le> b * 2 ^ nat k" by simp
      ultimately show False using 1 2 by linarith
    next
      case nn
      with jk bj bk have 1: "a * 2 ^ nat (- j) < 2 * b" and 2: "b \<le> a * 2 ^ nat (- k)"
        by (auto simp: between_def)
      from jk nn have "nat (- k) + 1 \<le> nat (- j)" by linarith
      then have "(2::nat) ^ (nat (- k) + 1) \<le> 2 ^ nat (- j)" by (rule power_increasing) simp
      then have "a * (2 ^ nat (- k) * 2) \<le> a * 2 ^ nat (- j)" by simp
      with 1 2 show False by (simp add: mult.assoc)
    qed
  qed
  from ne consider "j < k" | "k < j" by linarith
  then show False using aux assms by cases blast+
qed

lemma ilog2_between:
  assumes pa: "0 < a" and pb: "0 < b"
  shows "between a b (ilog2 a b)"
proof -
  from bitLen_pos [OF pa] obtain x where la: "bitLen a = Suc x" by (cases "bitLen a") auto
  from bitLen_pos [OF pb] obtain y where lb: "bitLen b = Suc y" by (cases "bitLen b") auto
  from bitLen_bounds [OF pa] have a1: "2 ^ x \<le> a" and a2: "a < 2 * 2 ^ x"
    by (simp_all add: la)
  from bitLen_bounds [OF pb] have b1: "2 ^ y \<le> b" and b2: "b < 2 * 2 ^ y"
    by (simp_all add: lb)
  define k where "k = int x - int y"
  have il: "ilog2 a b = (if (if 0 \<le> k then b * 2 ^ nat k \<le> a else b \<le> a * 2 ^ nat (- k)) then k else k - 1)"
    by (simp add: ilog2_def k_def la lb)
  show ?thesis
  proof (cases "0 \<le> k")
    case kp: True
    define d where "d = x - y"
    from kp have x: "x = y + d" and nk: "nat k = d" and kd: "k = int d"
      by (simp_all add: k_def d_def)
    have nk1: "nat (k + 1) = Suc d" using kd by simp
    show ?thesis
    proof (cases "b * 2 ^ d \<le> a")
      case True
      have "a < 2 * 2 ^ y * 2 ^ d" using a2 by (simp add: x power_add)
      also have "\<dots> \<le> b * (2 * 2 ^ d)" using b1 by simp
      finally have "a < b * 2 ^ Suc d" by simp
      with True kp show ?thesis by (simp add: il between_def nk nk1)
    next
      case False
      then have hi: "a < b * 2 ^ d" by simp
      show ?thesis
      proof (cases d)
        case 0
        with hi have ab: "a < b" by simp
        from a1 b2 have "b \<le> a * 2" by (simp add: x 0)
        with ab 0 False kp kd show ?thesis by (simp add: il between_def)
      next
        case (Suc d')
        have k1: "0 \<le> k - 1" "nat (k - 1) = d'" "nat (k - 1 + 1) = Suc d'"
          using kd Suc by simp_all
        have "b * 2 ^ d' < 2 * 2 ^ y * 2 ^ d'" using b2 by simp
        also have "\<dots> = 2 ^ x" by (simp add: x Suc power_add)
        finally have "b * 2 ^ d' \<le> a" using a1 by linarith
        moreover from hi have "a < b * 2 ^ Suc d'" by (simp add: Suc)
        ultimately show ?thesis using False kp k1 by (simp add: il between_def nk)
      qed
    qed
  next
    case kn: False
    then have "x < y" by (simp add: k_def)
    then obtain d where y: "y = x + Suc d" by (metis less_imp_Suc_add add_Suc_right)
    have nk: "nat (- k) = Suc d" by (simp add: k_def y)
    have nk1: "nat (- (k - 1)) = Suc (Suc d)" "nat (1 - k) = Suc (Suc d)" using nk kn by linarith+
    show ?thesis
    proof (cases "b \<le> a * 2 ^ Suc d")
      case True
      have "a * 2 ^ Suc d < 2 * 2 ^ x * 2 ^ Suc d" using a2 by simp
      also have "\<dots> = 2 * 2 ^ y" by (simp add: y power_add)
      also have "\<dots> \<le> 2 * b" using b1 by simp
      finally have "a * 2 ^ Suc d < 2 * b" .
      with True kn show ?thesis by (simp add: il between_def nk)
    next
      case False
      then have hi: "a * 2 ^ Suc d < b" by simp
      have "b < 2 * 2 ^ y" by (rule b2)
      also have "\<dots> = 2 ^ x * 2 ^ Suc (Suc d)" by (simp add: y power_add)
      also have "\<dots> \<le> a * 2 ^ Suc (Suc d)" using a1 by simp
      finally have lo: "b \<le> a * 2 ^ Suc (Suc d)" by simp
      from hi have "a * 2 ^ Suc (Suc d) < 2 * b" by simp
      with lo False kn show ?thesis by (simp add: il between_def nk nk1 del: power_Suc)
    qed
  qed
qed

lemma ilog2_unique: "0 < a \<Longrightarrow> 0 < b \<Longrightarrow> between a b k \<Longrightarrow> ilog2 a b = k"
  using between_unique ilog2_between by blast

lemma ilog2_scale: "0 < c \<Longrightarrow> 0 < a \<Longrightarrow> 0 < b \<Longrightarrow> ilog2 (c * a) (c * b) = ilog2 a b"
  by (rule ilog2_unique) (simp_all add: between_scale ilog2_between)

lemma roundEven_scale: "0 < c \<Longrightarrow> roundEven (c * a) (c * b) = roundEven a b"
  by (simp add: roundEven_def Let_def mult.left_commute [of 2 c])

lemma roundEven_one: "roundEven a 1 = a" "roundEven a (Suc 0) = a"
  by (simp_all add: roundEven_def)

lemma roundAt_scale: "0 < c \<Longrightarrow> roundAt e (c * a) (c * b) = roundAt e a b"
  by (simp add: roundAt_def roundEven_scale mult.assoc)

lemma roundPrec_scale:
  "0 < c \<Longrightarrow> 0 < a \<Longrightarrow> 0 < b \<Longrightarrow> roundPrec p (c * a) (c * b) = roundPrec p a b"
  by (simp add: roundPrec_def ilog2_scale roundAt_scale)

lemma round64_scale:
  assumes "0 < c" and "0 < b"
  shows "round64 s (c * a) (c * b) = round64 s a b"
proof (cases "a = 0")
  case True
  then show ?thesis by (simp add: round64_def)
next
  case False
  then have "0 < a" by simp
  with assms show ?thesis
    by (simp add: round64_def ilog2_scale roundAt_scale roundPrec_scale)
qed

text \<open>An integer of at most \<open>p\<close> bits is not changed by rounding to \<open>p\<close> bits.\<close>

lemma ilog2_nat: "0 < k \<Longrightarrow> ilog2 k 1 = int (bitLen k) - 1"
proof (rule ilog2_unique)
  assume pk: "0 < k"
  from bitLen_pos [OF pk] obtain x where x: "bitLen k = Suc x" by (cases "bitLen k") auto
  from bitLen_bounds [OF pk] show "between k 1 (int (bitLen k) - 1)"
    by (simp add: between_def x nat_add_distrib)
qed simp_all

lemma roundPrec_nat:
  assumes "0 < k" and "bitLen k \<le> p"
  shows "roundPrec p k 1 = (k * 2 ^ (p - bitLen k), int (bitLen k) - int p)"
proof -
  have e: "ilog2 k 1 - (int p - 1) = int (bitLen k) - int p"
    using ilog2_nat [OF assms(1)] by simp
  show ?thesis
  proof (cases "bitLen k = p")
    case True
    then show ?thesis unfolding roundPrec_def Let_def e by (simp add: roundAt_def roundEven_one)
  next
    case False
    with assms(2) have lt: "bitLen k < p" by simp
    then have "nat (- (int (bitLen k) - int p)) = p - bitLen k" by linarith
    moreover from lt have "\<not> 0 \<le> int (bitLen k) - int p" by simp
    ultimately show ?thesis unfolding roundPrec_def Let_def e by (simp add: roundAt_def roundEven_one)
  qed
qed

lemma roundPrec_multiple:
  assumes "0 < k" and "0 < b" and "bitLen k \<le> p"
  shows "roundPrec p (k * b) b = (k * 2 ^ (p - bitLen k), int (bitLen k) - int p)"
proof -
  have "roundPrec p (b * k) (b * 1) = roundPrec p k 1"
    using assms by (intro roundPrec_scale) simp_all
  with roundPrec_nat [OF assms(1,3)] show ?thesis by (simp add: mult.commute)
qed

text \<open>The float64 nearest to \<open>k \<times> 2\<^sup>j \<times> 2\<^sup>-\<^sup>j\<close> is the one nearest to \<open>k\<close>.\<close>

lemma round64Dyadic_shifted:
  "round64Dyadic s (k * 2 ^ j) (- int j) = round64 s k 1"
proof (cases j)
  case 0
  then show ?thesis by (simp add: round64Dyadic_def)
next
  case (Suc j')
  have "round64 s (2 ^ j * k) (2 ^ j * 1) = round64 s k 1"
    by (intro round64_scale) simp_all
  moreover have "\<not> 0 \<le> - int j" "nat (- (- int j)) = j" using Suc by simp_all
  ultimately show ?thesis unfolding round64Dyadic_def by (simp add: mult.commute)
qed

lemma scale_cases:
  "(d::nat) \<le> 22 \<Longrightarrow> d \<in> set [0, 1, 2, 3, 4, 5, 6, 7, 8, 9, 10, 11, 12, 13, 14, 15, 16, 17, 18, 19, 20, 21, 22]"
  by (simp only: set_simps insert_iff empty_iff) arith

lemma Pow10_exact: "d \<le> 22 \<Longrightarrow> Pow10 (int d) = F64 False (5 ^ d) (int d)"
proof -
  assume "d \<le> 22"
  from scale_cases [OF this] show ?thesis
    unfolding set_simps insert_iff empty_iff
    by (elim disjE) (simp_all add: float_eval)
qed

lemma scaledQuotient_zero: "d \<le> 22 \<Longrightarrow> scaledQuotient 0 (int d) = Inr (round64 False 0 1)"
  by (simp add: scaledQuotient_def Pow10_exact Quo_def SetInt_def Float64_def round64_def)

lemma scaledQuotient_multiple:
  assumes pk: "0 < k" and d: "d \<le> 22"
  shows "scaledQuotient (int (k * 10 ^ d)) (int d) = Inr (round64 False k 1)"
proof -
  define n where "n = k * 10 ^ d"
  define k' where "k' = k * 2 ^ d"
  define P where "P = max (bitLen n) 64"
  define L where "L = bitLen k'"
  have n: "n = k' * 5 ^ d"
    by (simp add: n_def k'_def power_mult_distrib [symmetric])
  have pn: "0 < n" and pk': "0 < k'" using pk by (simp_all add: n_def k'_def)
  have "k' \<le> n" by (simp add: n)
  then have LP: "L \<le> P" using bitLen_mono [of k' n] by (simp add: L_def P_def)
  have x: "SetInt (int n) =
      \<lparr>prec = P, neg = False, form = form_finite, mant = n, expo = 0\<rparr>"
    using pn by (simp add: SetInt_def P_def)
  have y: "NewFloat (Pow10 (int d)) =
      \<lparr>prec = 53, neg = False, form = form_finite, mant = 5 ^ d, expo = int d\<rparr>"
    by (simp add: Pow10_exact [OF d])
  have p: "max P 53 = P" by (simp add: P_def)
  have r: "roundPrec P n (5 ^ d) = (k' * 2 ^ (P - L), int L - int P)"
    unfolding n L_def using pk' LP by (intro roundPrec_multiple) (simp_all add: L_def)
  have q: "Quo (SetInt (int n)) (NewFloat (Pow10 (int d))) =
      Inr \<lparr>prec = P, neg = False, form = form_finite, mant = k' * 2 ^ (P - L),
           expo = int L - int P - int d\<rparr>"
    unfolding x y by (simp add: Quo_def p r)
  have m: "k' * 2 ^ (P - L) = k * 2 ^ (d + (P - L))"
    by (simp add: k'_def power_add)
  have e: "int L - int P - int d = - int (d + (P - L))"
    using LP by linarith
  have "round64Dyadic False (k' * 2 ^ (P - L)) (int L - int P - int d) = round64 False k 1"
    unfolding m e by (rule round64Dyadic_shifted)
  then show ?thesis
    unfolding n_def [symmetric] scaledQuotient_def q by (simp add: Float64_def)
qed

lemma scaledQuotient_dvd:
  assumes "d \<le> 22" and "10 ^ d dvd n"
  shows "scaledQuotient (int n) (int d) = Inr (round64 False (n div 10 ^ d) 1)"
proof (cases "n = 0")
  case True
  with scaledQuotient_zero [OF assms(1)] show ?thesis by simp
next
  case False
  from assms(2) obtain k where k: "n = k * 10 ^ d" by (metis dvd_div_mult_self)
  with False have "0 < k" by (cases k) auto
  from scaledQuotient_multiple [OF this assms(1)] k show ?thesis by simp
qed

lemma between_lifted:
  assumes "0 \<le> int M + k"
  shows "between a b k \<longleftrightarrow>
    b * 2 ^ nat (int M + k) \<le> a * 2 ^ M \<and> a * 2 ^ M < b * 2 ^ Suc (nat (int M + k))"
proof (cases "0 \<le> k")
  case True
  then have e: "nat (int M + k) = M + nat k" "nat (k + 1) = Suc (nat k)" by linarith+
  show ?thesis by (simp add: between_def True e power_add)
next
  case False
  then have "M = nat (- k) + nat (int M + k)" using assms by linarith
  then obtain i where M: "M = nat (- k) + i" and i: "nat (int M + k) = i" by simp
  show ?thesis by (simp add: between_def False i) (simp add: M power_add mult.commute [of b 2])
qed

lemma between_divisor:
  assumes "between a b k"
  shows "between a (b * 2 ^ d) (k - int d)"
proof -
  define M where "M = nat \<bar>k\<bar> + d"
  have 1: "0 \<le> int M + k" and 2: "0 \<le> int M + (k - int d)" by (simp_all add: M_def)
  have e: "nat (int M + k) = nat (int M + (k - int d)) + d" using 2 by linarith
  from assms show ?thesis
    unfolding between_lifted [OF 1] between_lifted [OF 2] e by (simp add: power_add ac_simps)
qed

lemma ilog2_divisor:
  "0 < a \<Longrightarrow> 0 < b \<Longrightarrow> ilog2 a (b * 2 ^ d) = ilog2 a b - int d"
  by (rule ilog2_unique) (simp_all add: between_divisor ilog2_between)

lemma roundAt_divisor: "roundAt (e - int d) a (b * 2 ^ d) = roundAt e a b"
proof -
  consider (hi) "int d \<le> e" | (mid) "0 \<le> e" "e < int d" | (lo) "e < 0" by linarith
  then show ?thesis
  proof cases
    case hi
    then have "nat e = d + nat (e - int d)" by linarith
    with hi show ?thesis by (simp add: roundAt_def power_add mult.assoc)
  next
    case mid
    define i where "i = nat e"
    define j where "j = nat (int d - e)"
    have d: "d = j + i" using mid by (simp add: i_def j_def)
    have "roundAt (e - int d) a (b * 2 ^ d) = roundEven (a * 2 ^ j) (b * 2 ^ d)"
      using mid by (simp add: roundAt_def j_def)
    also have "\<dots> = roundEven (2 ^ j * a) (2 ^ j * (b * 2 ^ i))"
      by (simp add: d power_add mult.commute mult.left_commute)
    also have "\<dots> = roundEven a (b * 2 ^ i)"
      by (rule roundEven_scale) simp
    also have "\<dots> = roundAt e a b"
      using mid by (simp add: roundAt_def i_def)
    finally show ?thesis .
  next
    case lo
    define i where "i = nat (- e)"
    have n: "nat (- (e - int d)) = d + i" using lo by (simp add: i_def)
    have "roundAt (e - int d) a (b * 2 ^ d) = roundEven (a * 2 ^ (d + i)) (b * 2 ^ d)"
      using lo unfolding roundAt_def n [symmetric] by simp
    also have "\<dots> = roundEven (2 ^ d * (a * 2 ^ i)) (2 ^ d * b)"
      by (simp add: power_add mult.commute mult.left_commute)
    also have "\<dots> = roundEven (a * 2 ^ i) b"
      by (rule roundEven_scale) simp
    also have "\<dots> = roundAt e a b"
      using lo by (simp add: roundAt_def i_def)
    finally show ?thesis .
  qed
qed

lemma roundPrec_divisor:
  assumes "0 < a" and "0 < b"
  shows "roundPrec p a (b * 2 ^ d) = (fst (roundPrec p a b), snd (roundPrec p a b) - int d)"
proof -
  have e: "ilog2 a b - int d - (int p - 1) = ilog2 a b - (int p - 1) - int d" by simp
  show ?thesis
    unfolding roundPrec_def Let_def ilog2_divisor [OF assms] e roundAt_divisor by simp
qed

lemma scaledQuotient_general:
  assumes pn: "0 < n" and d: "d \<le> 22"
  shows "scaledQuotient (int n) (int d) =
     Inr (case roundPrec (max (bitLen n) 64) n (10 ^ d) of (m, e) \<Rightarrow> round64Dyadic False m e)"
proof -
  define P where "P = max (bitLen n) 64"
  obtain m e where r: "roundPrec P n (5 ^ d) = (m, e)" by (cases "roundPrec P n (5 ^ d)")
  have "(10::nat) ^ d = 5 ^ d * 2 ^ d" by (simp add: power_mult_distrib [symmetric])
  then have r10: "roundPrec P n (10 ^ d) = (m, e - int d)"
    using roundPrec_divisor [OF pn, of "5 ^ d" P d] r by simp
  have x: "SetInt (int n) =
      \<lparr>prec = P, neg = False, form = form_finite, mant = n, expo = 0\<rparr>"
    using pn by (simp add: SetInt_def P_def)
  have y: "NewFloat (Pow10 (int d)) =
      \<lparr>prec = 53, neg = False, form = form_finite, mant = 5 ^ d, expo = int d\<rparr>"
    by (simp add: Pow10_exact [OF d])
  have p: "max P 53 = P" by (simp add: P_def)
  have q: "Quo (SetInt (int n)) (NewFloat (Pow10 (int d))) =
      Inr \<lparr>prec = P, neg = False, form = form_finite, mant = m, expo = e - int d\<rparr>"
    unfolding x y by (simp add: Quo_def p r)
  show ?thesis
    unfolding scaledQuotient_def q P_def [symmetric] r10 by (simp add: Float64_def)
qed

lemma normal_pos: "0 < m \<Longrightarrow> 0 < fst (normal m e) \<and> e \<le> snd (normal m e)"
proof (induction m e rule: normal.induct)
  case (1 m e)
  show ?case
  proof (cases "even m")
    case True
    with 1(2) have "0 < m div 2" by presburger
    with 1(1) [OF _ True] 1(2) have "0 < fst (normal (m div 2) (e + 1)) \<and> e + 1 \<le> snd (normal (m div 2) (e + 1))"
      by simp
    with True 1(2) show ?thesis by (subst (1 2) normal.simps) simp
  next
    case False
    with 1(2) show ?thesis by (subst (1 2) normal.simps) simp
  qed
qed

lemma finite64_pos:
  "0 < m \<Longrightarrow> \<exists>m' e'. finite64 s (m, e) = F64 s m' e' \<and> 0 < m' \<and> e \<le> e'"
  using normal_pos [of m e] by (cases "normal m e") (simp add: finite64_def)

lemma roundEven_pos: "b < 2 * x \<Longrightarrow> 0 < roundEven x b"
proof (cases "x div b = 0")
  case False
  then show ?thesis by (simp add: roundEven_def Let_def)
next
  case True
  assume "b < 2 * x"
  moreover from True have "x mod b = x" by (auto simp: div_eq_0_iff)
  ultimately show ?thesis by (simp add: roundEven_def Let_def True)
qed

lemma roundAt_pos:
  assumes bt: "between a b k" and pa: "0 < a" and pb: "0 < b" and jk: "j \<le> k"
  shows "0 < roundAt j a b"
proof -
  consider (pp) "0 \<le> j" | (np) "j < 0" "0 \<le> k" | (nn) "k < 0" using jk by linarith
  then show ?thesis
  proof cases
    case pp
    with jk bt have "b * 2 ^ nat k \<le> a" by (simp add: between_def)
    moreover from pp jk have "(2::nat) ^ nat j \<le> 2 ^ nat k" by (intro power_increasing) auto
    then have "b * 2 ^ nat j \<le> b * 2 ^ nat k" by simp
    ultimately have "b * 2 ^ nat j < 2 * a" using pa by linarith
    with pp show ?thesis by (simp add: roundAt_def roundEven_pos)
  next
    case np
    with bt have "b * 2 ^ nat k \<le> a" by (simp add: between_def)
    moreover have "b \<le> b * 2 ^ nat k" by simp
    moreover have "a \<le> a * 2 ^ nat (- j)" by simp
    ultimately have "b < 2 * (a * 2 ^ nat (- j))" using pa by linarith
    with np show ?thesis by (simp add: roundAt_def roundEven_pos)
  next
    case nn
    with bt have "b \<le> a * 2 ^ nat (- k)" by (simp add: between_def)
    moreover from nn jk have "(2::nat) ^ nat (- k) \<le> 2 ^ nat (- j)" by (intro power_increasing) auto
    then have "a * 2 ^ nat (- k) \<le> a * 2 ^ nat (- j)" by simp
    ultimately have "b < 2 * (a * 2 ^ nat (- j))" using pb by linarith
    with nn jk show ?thesis by (simp add: roundAt_def roundEven_pos)
  qed
qed

text \<open>A value of at least \<open>2\<^sup>-\<^sup>1\<^sup>0\<^sup>7\<^sup>5\<close>, that bound excluded, does not round to zero.\<close>

lemma round64_nonzero:
  assumes pa: "0 < a" and pb: "0 < b" and big: "b < a * 2 ^ 1075"
  shows "round64 s a b = F64Inf s \<or> (\<exists>m e. round64 s a b = F64 s m e \<and> 0 < m)"
proof (cases "ilog2 a b < - 1022")
  case True
  from big have "b < 2 * (a * 2 ^ 1074)" by simp
  then have "0 < roundAt (- 1074) a b" by (simp add: roundAt_def roundEven_pos)
  from finite64_pos [OF this, of s "- 1074"] True pa show ?thesis
    by (auto simp: round64_def)
next
  case False
  obtain m e where r: "roundPrec 53 a b = (m, e)" by (cases "roundPrec 53 a b")
  from ilog2_between [OF pa pb] have "0 < roundAt (ilog2 a b - 52) a b"
    by (rule roundAt_pos [OF _ pa pb]) simp
  with r have "0 < m" by (auto simp: roundPrec_def Let_def)
  from finite64_pos [OF this, of s e] False pa r show ?thesis
    by (auto simp: round64_def)
qed

text \<open>For a value of at least 1 the exponent of the result is at least \<open>-52\<close>.\<close>

lemma round64_ge_one:
  assumes pb: "0 < b" and ge: "b \<le> a"
  shows "round64 s a b = F64Inf s \<or> (\<exists>m e. round64 s a b = F64 s m e \<and> 0 < m \<and> - 52 \<le> e)"
proof -
  from pb ge have pa: "0 < a" by simp
  have k0: "0 \<le> ilog2 a b"
  proof (rule ccontr)
    assume "\<not> 0 \<le> ilog2 a b"
    with ilog2_between [OF pa pb] have "a * 2 ^ nat (- ilog2 a b) < 2 * b" and n: "ilog2 a b < 0"
      by (simp_all add: between_def)
    moreover from n have "(2::nat) ^ 1 \<le> 2 ^ nat (- ilog2 a b)" by (intro power_increasing) auto
    then have "a * 2 \<le> a * 2 ^ nat (- ilog2 a b)" by simp
    ultimately show False using ge by linarith
  qed
  obtain m e where r: "roundPrec 53 a b = (m, e)" by (cases "roundPrec 53 a b")
  from ilog2_between [OF pa pb] have "0 < roundAt (ilog2 a b - 52) a b"
    by (rule roundAt_pos [OF _ pa pb]) simp
  with r have m: "0 < m" and e: "- 52 \<le> e" using k0 by (auto simp: roundPrec_def Let_def)
  from finite64_pos [OF m, of s e] obtain m' e' where
    "finite64 s (m, e) = F64 s m' e'" "0 < m'" "e \<le> e'" by blast
  with e k0 pa r show ?thesis by (auto simp: round64_def)
qed

lemma round64Dyadic_nonzero:
  assumes "0 < m" and "- 1074 \<le> e"
  shows "round64Dyadic s m e = F64Inf s \<or> (\<exists>m' e'. round64Dyadic s m e = F64 s m' e' \<and> 0 < m')"
proof (cases "0 \<le> e")
  case True
  have "(1::nat) < 1 * 2 ^ 1075" by simp
  also have "\<dots> \<le> (m * 2 ^ nat e) * 2 ^ 1075"
    using assms(1) by (intro mult_le_mono1) (simp add: Suc_leI)
  finally have lt: "(1::nat) < m * 2 ^ nat e * 2 ^ 1075" .
  have pos: "0 < m * 2 ^ nat e" using assms(1) by simp
  have "round64 s (m * 2 ^ nat e) 1 = F64Inf s \<or>
      (\<exists>m' e'. round64 s (m * 2 ^ nat e) 1 = F64 s m' e' \<and> 0 < m')"
    by (rule round64_nonzero [OF pos _ lt]) simp
  with True show ?thesis by (simp only: round64Dyadic_def if_True)
next
  case False
  with assms(2) have "nat (- e) \<le> 1074" by linarith
  then have "(2::nat) ^ nat (- e) \<le> 2 ^ 1074" by (intro power_increasing) auto
  also have "\<dots> < 1 * 2 ^ 1075" by simp
  also have "\<dots> \<le> m * 2 ^ 1075" using assms(1) by (intro mult_le_mono1) simp
  finally have lt: "2 ^ nat (- e) < m * 2 ^ 1075" .
  have "round64 s m (2 ^ nat (- e)) = F64Inf s \<or>
      (\<exists>m' e'. round64 s m (2 ^ nat (- e)) = F64 s m' e' \<and> 0 < m')"
    by (rule round64_nonzero [OF assms(1) _ lt]) simp
  with False show ?thesis by (simp only: round64Dyadic_def if_False)
qed

text \<open>\<^verbatim>\<open>math.Pow10\<close> of a scale that is not negative is not zero.\<close>

lemma Pow10_nonzero:
  assumes "0 \<le> n"
  shows "Pow10 n = F64Inf False \<or> (\<exists>m e. Pow10 n = F64 False m e \<and> 0 < m)"
proof (cases "n \<le> 308")
  case False
  with assms show ?thesis by (simp add: Pow10_def)
next
  case True
  define x where "x = pow10postab32 (nat n div 32)"
  define y where "y = pow10tab (nat n mod 32)"
  have p: "Pow10 n = mul64 x y" using assms True by (simp add: Pow10_def x_def y_def)
  have X: "x = F64Inf False \<or> (\<exists>m e. x = F64 False m e \<and> 0 < m \<and> - 52 \<le> e)"
    unfolding x_def pow10postab32_def by (rule round64_ge_one) simp_all
  have Y: "y = F64Inf False \<or> (\<exists>m e. y = F64 False m e \<and> 0 < m \<and> - 52 \<le> e)"
    unfolding y_def pow10tab_def by (rule round64_ge_one) simp_all
  from X show ?thesis
  proof
    assume "x = F64Inf False"
    then show ?thesis by (simp add: p)
  next
    assume "\<exists>m e. x = F64 False m e \<and> 0 < m \<and> - 52 \<le> e"
    then obtain m1 e1 where x1: "x = F64 False m1 e1" "0 < m1" "- 52 \<le> e1" by blast
    from Y show ?thesis
    proof
      assume "y = F64Inf False"
      with x1 show ?thesis by (simp add: p)
    next
      assume "\<exists>m e. y = F64 False m e \<and> 0 < m \<and> - 52 \<le> e"
      then obtain m2 e2 where y1: "y = F64 False m2 e2" "0 < m2" "- 52 \<le> e2" by blast
      have "0 < m1 * m2" "- 1074 \<le> e1 + e2" using x1 y1 by simp_all
      from round64Dyadic_nonzero [OF this, of False] show ?thesis
        by (simp add: p x1 y1)
    qed
  qed
qed

lemma normalizer_of_zero:
  assumes "0 \<le> n"
  shows "Quo (SetInt 0) (NewFloat (Pow10 n)) =
     Inr \<lparr>prec = 64, neg = False, form = form_zero, mant = 0, expo = 0\<rparr>"
  using Pow10_nonzero [OF assms] by (auto simp: Quo_def SetInt_def)

subsection \<open>The decimal normalizer\<close>

lemma scanDigits_all:
  "list_all (\<lambda>c. bigDigit c < base) ds \<Longrightarrow>
   scanDigits base z cnt ds = (foldl (\<lambda>n c. n * base + bigDigit c) z ds, cnt + length ds, [])"
  by (induction ds arbitrary: z cnt) auto

lemma bigDigit_sign: "bigDigit (CHR ''+'') = 63" "bigDigit (CHR ''-'') = 63"
  by (simp_all add: bigDigit_def)

lemma SetString_digits:
  assumes "allDigits base ds" and "base \<le> 36"
  shows "SetString ds base = (int (digitsValue base ds), True)"
proof -
  from assms(1) have ne: "ds \<noteq> []" and all: "list_all (\<lambda>c. bigDigit c < base) ds"
    by (simp_all add: allDigits_def)
  from ne all have "bigDigit (hd ds) < base" by (cases ds) simp_all
  with assms(2) have "hd ds \<noteq> CHR ''+''" "hd ds \<noteq> CHR ''-''"
    using bigDigit_sign by auto
  with ne scanDigits_all [OF all, of 0 0] show ?thesis
    by (simp add: SetString_def digitsValue_def)
qed

lemma allDigits10_no_prefix: "allDigits 10 s \<Longrightarrow> \<not> HasPrefix s ''0x''"
  by (cases s; cases "tl s") (auto simp: allDigits_def HasPrefix_def bigDigit_def)

lemma r1: "resultToFloat64WithDecimals ''0x3635C9ADC5DEA00000'' 18 = Inr (F64 False 125 3)" by (simp add: float_eval)
lemma r2: "resultToFloat64WithDecimals ''1000000000'' 6 = Inr (F64 False 125 3)" by (simp add: float_eval)
lemma r3: "resultToFloat64WithDecimals ''0x0'' 18 = Inr (F64 False 0 0)" by (simp add: float_eval)
lemma k1: "round64 False 1000 1 = F64 False 125 3" by (simp add: float_eval)
lemma k2: "round64 False 0 1 = F64 False 0 0" by (simp add: float_eval)

text \<open>
  C3. The input is read in base 16 when it starts with \<^verbatim>\<open>0x\<close> (the prefix removed) and
  in base 10 otherwise: a prefix followed by hexadecimal digits gives the quotient of their
  base-16 value, and decimal digits give the quotient of their base-10 value. The three
  equations of the claim hold; the float64 1000.0 is \<open>125 \<times> 2\<^sup>3\<close>.
\<close>

theorem resultToFloat64WithDecimals_base:
  "resultToFloat64WithDecimals result scale =
     scaledQuotient (fst (if HasPrefix result ''0x'' then SetString (TrimPrefix result ''0x'') 16
                    else SetString result 10)) scale \<and>
   (allDigits 16 h \<longrightarrow>
      resultToFloat64WithDecimals (''0x'' @ h) scale = scaledQuotient (int (digitsValue 16 h)) scale) \<and>
   (allDigits 10 s \<longrightarrow>
      resultToFloat64WithDecimals s scale = scaledQuotient (int (digitsValue 10 s)) scale) \<and>
   resultToFloat64WithDecimals ''0x3635C9ADC5DEA00000'' 18 = Inr (round64 False 1000 1) \<and>
   resultToFloat64WithDecimals ''1000000000'' 6 = Inr (round64 False 1000 1) \<and>
   resultToFloat64WithDecimals ''0x0'' 18 = Inr (round64 False 0 1) \<and>
   round64 False 1000 1 = F64 False 125 3 \<and> round64 False 0 1 = F64 False 0 0"
proof -
  have base: "resultToFloat64WithDecimals result scale =
     scaledQuotient (fst (if HasPrefix result ''0x'' then SetString (TrimPrefix result ''0x'') 16
                    else SetString result 10)) scale" for result
    by (simp add: resultToFloat64WithDecimals_def scaledQuotient_def)
  have hex: "resultToFloat64WithDecimals (''0x'' @ h) scale = scaledQuotient (int (digitsValue 16 h)) scale"
    if "allDigits 16 h"
    using SetString_digits [OF that] by (simp add: base HasPrefix_def TrimPrefix_def)
  have dec: "resultToFloat64WithDecimals s scale = scaledQuotient (int (digitsValue 10 s)) scale"
    if "allDigits 10 s"
    using SetString_digits [OF that] allDigits10_no_prefix [OF that] by (simp add: base [of s])
  from base [of result] hex dec r1 r2 r3 k1 k2 show ?thesis by simp
qed

theorem resultToFloat64WithDecimals_base_witness:
  "allDigits 16 ''1234'' \<and> allDigits 10 ''1000000000'' \<and>
   resultToFloat64WithDecimals ''0x1234'' 0 = scaledQuotient 4660 0 \<and>
   resultToFloat64WithDecimals ''1000000000'' 6 = scaledQuotient 1000000000 6"
proof -
  have a: "allDigits 16 ''1234''" "allDigits 10 ''1000000000''"
    by (simp_all add: allDigits_def bigDigit_def)
  have v: "digitsValue 16 ''1234'' = 4660" "digitsValue 10 ''1000000000'' = 1000000000"
    by (simp_all add: digitsValue_def bigDigit_def)
  from resultToFloat64WithDecimals_base [of "[]" 0 "''1234''" "[]"]
       resultToFloat64WithDecimals_base [of "[]" 6  "[]" "''1000000000''"] a v
  show ?thesis by simp
qed

lemma denotes_normalizer:
  assumes "denotes text0 n"
  shows "resultToFloat64WithDecimals text0 scale = scaledQuotient (int n) scale"
proof -
  from assms consider
      (hex) "HasPrefix text0 ''0x''" "allDigits 16 (TrimPrefix text0 ''0x'')" "n = digitsValue 16 (TrimPrefix text0 ''0x'')"
    | (dec) "allDigits 10 text0" "n = digitsValue 10 text0"
    unfolding denotes_def by blast
  then show ?thesis
  proof cases
    case hex
    from SetString_digits [OF hex(2)] hex(1,3) show ?thesis
      by (simp add: resultToFloat64WithDecimals_def scaledQuotient_def)
  next
    case dec
    from SetString_digits [OF dec(1)] allDigits10_no_prefix [OF dec(1)] dec(2) show ?thesis
      by (simp add: resultToFloat64WithDecimals_def scaledQuotient_def)
  qed
qed

lemma correctlyRounded_dvd:
  assumes "10 ^ d dvd n"
  shows "correctlyRounded n d = round64 False (n div 10 ^ d) 1"
proof -
  from assms obtain k where k: "n = 10 ^ d * k" by (auto elim: dvdE)
  have "round64 False (10 ^ d * k) (10 ^ d * 1) = round64 False k 1"
    by (rule round64_scale) simp_all
  with k show ?thesis by (simp add: correctlyRounded_def)
qed

lemma Pow10_inf: "308 < d \<Longrightarrow> Pow10 (int d) = F64Inf False"
  by (simp add: Pow10_def)

lemma scaledQuotient_inf: "308 < d \<Longrightarrow> scaledQuotient (int n) (int d) = Inr (F64 False 0 0)"
  by (simp add: scaledQuotient_def Pow10_inf Quo_def SetInt_def Float64_def)

text \<open>
  C4, amended. For a well-formed input that denotes the integer \<open>n\<close> and a scale \<open>d\<close>:
  \<^item> when \<open>d\<close> is from 0 to 22 (the powers of ten that float64 holds exactly) and \<open>n\<close> is not
    0, the result is the exact quotient \<open>n / 10\<^sup>d\<close> rounded to \<open>max(BitLen(n), 64)\<close> bits
    and then narrowed to float64: two roundings, both in arbitrary-precision arithmetic on
    the exact integers;
  \<^item> when \<open>d\<close> is from 0 to 22 and \<open>10\<^sup>d\<close> divides \<open>n\<close> (always for \<open>d = 0\<close>), the result is
    the correctly-rounded value of the exact quotient;
  \<^item> when \<open>d\<close> is above 308, the result is 0.
\<close>

theorem resultToFloat64WithDecimals_rounding:
  assumes "denotes text0 n"
  shows "(d \<le> 22 \<and> 0 < n \<longrightarrow>
            resultToFloat64WithDecimals text0 (int d) = Inr (twiceRounded n d)) \<and>
         (d \<le> 22 \<and> 10 ^ d dvd n \<longrightarrow>
            resultToFloat64WithDecimals text0 (int d) = Inr (correctlyRounded n d)) \<and>
         (308 < d \<longrightarrow> resultToFloat64WithDecimals text0 (int d) = Inr (F64 False 0 0))"
proof (intro conjI impI)
  assume "d \<le> 22 \<and> 0 < n"
  then show "resultToFloat64WithDecimals text0 (int d) = Inr (twiceRounded n d)"
    using scaledQuotient_general [of n d]
    by (simp add: denotes_normalizer [OF assms] twiceRounded_def)
next
  assume "d \<le> 22 \<and> 10 ^ d dvd n"
  then show "resultToFloat64WithDecimals text0 (int d) = Inr (correctlyRounded n d)"
    using scaledQuotient_dvd [of d n]
    by (simp add: denotes_normalizer [OF assms] correctlyRounded_dvd)
next
  assume "308 < d"
  then show "resultToFloat64WithDecimals text0 (int d) = Inr (F64 False 0 0)"
    by (simp add: denotes_normalizer [OF assms] scaledQuotient_inf)
qed

theorem resultToFloat64WithDecimals_rounding_witness:
  "denotes ''2573'' 2573 \<and>
   resultToFloat64WithDecimals ''2573'' 18 = Inr (twiceRounded 2573 18) \<and>
   twiceRounded 2573 18 = F64 False 1630832497193617 (- 99) \<and>
   denotes ''0x3635C9ADC5DEA00000'' 1000000000000000000000 \<and>
   resultToFloat64WithDecimals ''0x3635C9ADC5DEA00000'' 18 =
     Inr (correctlyRounded 1000000000000000000000 18) \<and>
   correctlyRounded 1000000000000000000000 18 = F64 False 125 3 \<and>
   resultToFloat64WithDecimals ''2573'' 309 = Inr (F64 False 0 0)"
proof -
  have a: "denotes ''2573'' 2573"
    by (simp add: denotes_def HasPrefix_def allDigits_def digitsValue_def bigDigit_def)
  have b: "denotes ''0x3635C9ADC5DEA00000'' 1000000000000000000000"
    by (simp add: denotes_def HasPrefix_def TrimPrefix_def allDigits_def digitsValue_def bigDigit_def)
  have c: "(10::nat) ^ 18 dvd 1000000000000000000000" by simp
  from resultToFloat64WithDecimals_rounding [OF a, of 18, THEN conjunct1]
  have 1: "resultToFloat64WithDecimals ''2573'' 18 = Inr (twiceRounded 2573 18)"
    by simp
  have 2: "twiceRounded 2573 18 = F64 False 1630832497193617 (- 99)"
    by (simp add: twiceRounded_def float_eval)
  from resultToFloat64WithDecimals_rounding [OF b, of 18, THEN conjunct2, THEN conjunct1] c
  have 3: "resultToFloat64WithDecimals ''0x3635C9ADC5DEA00000'' 18 =
      Inr (correctlyRounded 1000000000000000000000 18)"
    by simp
  have 4: "correctlyRounded 1000000000000000000000 18 = F64 False 125 3"
    by (simp add: correctlyRounded_def float_eval)
  from resultToFloat64WithDecimals_rounding [OF a, of 309, THEN conjunct2, THEN conjunct2]
  have 5: "resultToFloat64WithDecimals ''2573'' 309 = Inr (F64 False 0 0)"
    by simp
  from a b 1 2 3 4 5 show ?thesis by blast
qed

text \<open>
  C4 as stated fails twice. First, two roundings are not one: 2573 at scale 18 is
  \<open>2573 / 10\<^sup>1\<^sup>8\<close>, whose 64-bit quotient has the mantissa 13359779817010111488; its low
  eleven bits are exactly one half of a unit of the 53-bit mantissa, so the narrowing goes
  to the even neighbour \<open>6523329988774468 \<times> 2\<^sup>-\<^sup>1\<^sup>0\<^sup>1\<close>, while the exact quotient lies above
  the half and its nearest float64 is \<open>6523329988774469 \<times> 2\<^sup>-\<^sup>1\<^sup>0\<^sup>1\<close>. Second, the divisor
  is \<^verbatim>\<open>math.Pow10\<close>, a float64: for the scale 309 it is \<open>+Inf\<close> and the result for 1 is 0,
  where the exact quotient \<open>1 / 10\<^sup>3\<^sup>0\<^sup>9\<close> has a nearest float64 that is not 0.
\<close>

theorem resultToFloat64WithDecimals_rounding_counterexample:
  "denotes ''2573'' 2573 \<and>
   resultToFloat64WithDecimals ''2573'' 18 = Inr (F64 False 1630832497193617 (- 99)) \<and>
   correctlyRounded 2573 18 = F64 False 6523329988774469 (- 101) \<and>
   denotes ''1'' 1 \<and>
   resultToFloat64WithDecimals ''1'' 309 = Inr (F64 False 0 0) \<and>
   correctlyRounded 1 309 \<noteq> F64 False 0 0"
proof -
  have a: "denotes ''2573'' 2573" "denotes ''1'' 1"
    by (simp_all add: denotes_def HasPrefix_def allDigits_def digitsValue_def bigDigit_def)
  have b: "resultToFloat64WithDecimals ''2573'' 18 = Inr (F64 False 1630832497193617 (- 99))"
    by (simp add: float_eval)
  have c: "correctlyRounded 2573 18 = F64 False 6523329988774469 (- 101)"
    by (simp add: correctlyRounded_def float_eval)
  have d: "resultToFloat64WithDecimals ''1'' 309 = Inr (F64 False 0 0)"
    by (simp add: float_eval)
  have "(10::nat) ^ 309 < 1 * 2 ^ 1075" by simp
  from round64_nonzero [OF _ _ this, of False] have e: "correctlyRounded 1 309 \<noteq> F64 False 0 0"
    unfolding correctlyRounded_def by auto
  from a b c d e show ?thesis by blast
qed

subsection \<open>The scenario of the specification\<close>

lemmas probe_eval =
  ProbeJSONRPC_def ProbeJSONRPC_v1_def params_eval blockNumber_def jsonrpc_def unbatched_def
  mockEnv_def fresh_def labels_def
  MustRegister_def SetGauge_def WithLabelValues_def validateLabelValues_def continuation_def
  send_def observe_def BatchCall_def buildBatch_v1_def
  raw_of_def string_of_def extractText_def extract_v1_def jmespath_Search_def isIdentifier_def
  parseJSONRPCParams_def stringsToSlice_def strings_eval Let_def

lemma nan: "resultToFloat64WithDecimals ''0x0'' (- 324) = Inl ErrNaN"
  by (simp add: float_eval)

lemma scale_324: "ParseInt ''-324'' = (- 324, None)"
  by (simp add: strconv_eval)

lemma scale_0: "ParseInt ''0'' = (0, None)"
  by (simp add: strconv_eval)

lemma value_0x1234: "resultToFloat64WithDecimals ''0x1234'' 0 = Inr (F64 False 1165 2)"
  by (simp add: float_eval)

text \<open>
  The mock answers \<^verbatim>\<open>"0x1234"\<close> and the gauge of the descriptor reads 4660, batched or not.
\<close>

lemma scenario:
  "ProbeJSONRPC (mockEnv (JStr ''0x1234'')) ''rpc.example'' jsonrpc fresh =
     (Inr True,
      \<lparr>Registered = [''probe_jsonrpc''], Gauges = [labels \<mapsto> F64 False 1165 2],
       Wire = [Batched [(''eth_blockNumber'', [])]]\<rparr>)"
  "ProbeJSONRPC (mockEnv (JStr ''0x1234'')) ''rpc.example'' (unbatched jsonrpc) fresh =
     (Inr True,
      \<lparr>Registered = [''probe_jsonrpc''], Gauges = [labels \<mapsto> F64 False 1165 2],
       Wire = [Single ''eth_blockNumber'' []]\<rparr>)"
  by (simp_all add: probe_eval scale_0 value_0x1234)

subsection \<open>Faults\<close>

text \<open>
  C9. The claim fails on the code: a scale below \<open>-323\<close> makes \<^verbatim>\<open>math.Pow10\<close> return 0, and
  a result that is 0 then divides 0 by 0; \<^verbatim>\<open>big.Float.Quo\<close> panics with \<^verbatim>\<open>ErrNaN\<close>, and
  nothing in \<^verbatim>\<open>ProbeJSONRPC\<close> recovers. With the scale \<^verbatim>\<open>-324\<close> and an endpoint that
  answers \<^verbatim>\<open>"0x0"\<close>, the normalizer panics, and so does the probe: the second listing,
  batched and unbatched, and the batch path of the first listing.
\<close>

theorem ProbeJSONRPC_zero_by_zero:
  "resultToFloat64WithDecimals ''0x0'' (- 324) = Inl ErrNaN \<and>
   fst (ProbeJSONRPC (mockEnv (JStr ''0x0'')) ''rpc.example''
     (jsonrpc(''decimal'' \<mapsto> [''-324''])) fresh) = Inl ErrNaN \<and>
   fst (ProbeJSONRPC (mockEnv (JStr ''0x0'')) ''rpc.example''
     (unbatched (jsonrpc(''decimal'' \<mapsto> [''-324'']))) fresh) = Inl ErrNaN \<and>
   fst (ProbeJSONRPC_v1 (mockEnv (JStr ''0x0'')) ''rpc.example''
     (jsonrpc(''decimal'' \<mapsto> [''-324''])) fresh) = Inl ErrNaN"
  by (simp add: probe_eval nan scale_324)

subsection \<open>The result extractor\<close>

lemma extractText_blank:
  "TrimSpace path = [] \<Longrightarrow>
   extractText env path raw =
     (case scalar raw of Some r \<Rightarrow> Inr r | None \<Rightarrow> Inl ''Failed to unmarshal JSON result'')"
  by (cases raw rule: unmarshalString.cases) (simp_all add: extractText_def scalar_def)

text \<open>
  C7, amended. When the extraction expression of a descriptor is empty or only white space,
  the extractor of the second listing takes the raw result as one scalar: a JSON string
  gives its content, unquoted, and null gives the empty text; every other raw result (a
  number, a boolean, an array, an object, a message that does not decode) is an error. In
  the loop over single calls (lines 310 to 315) and in the loop over batch elements (lines
  368 to 374) alike, the scalar is passed on to the tail of the loop body, which normalizes
  it and sets the gauge, and the error makes the probe return false at that descriptor.
\<close>

theorem blank_expression_scalar:
  assumes "TrimSpace (resultJMESPath c ! i) = []"
  shows "extractText env (resultJMESPath c ! i) raw =
           (case scalar raw of Some r \<Rightarrow> Inr r | None \<Rightarrow> Inl ''Failed to unmarshal JSON result'') \<and>
         (parseJSONRPCParams (args c ! i) = Inr a \<and> Call env (methods c ! i) a = Inr raw \<longrightarrow>
          callEach env target c (i # rest) w =
            (case scalar raw of
               None \<Rightarrow> (Inr False, send (Single (methods c ! i) a) w)
             | Some r \<Rightarrow>
                 (case observe target c i (TrimSpace (args c ! i)) r
                         (send (Single (methods c ! i) a) w) of
                    Inl p \<Rightarrow> (Inl p, send (Single (methods c ! i) a) w)
                  | Inr w2 \<Rightarrow> callEach env target c rest w2))) \<and>
         (Result (batch ! i) = RawMessage raw \<longrightarrow>
          readEach env target c batch (i # rest) w =
            (case scalar raw of
               None \<Rightarrow> (Inr False, w)
             | Some r \<Rightarrow>
                 (case observe target c i (TrimSpace (args c ! i)) r w of
                    Inl p \<Rightarrow> (Inl p, w)
                  | Inr w1 \<Rightarrow> readEach env target c batch rest w1)))"
proof (intro conjI impI)
  show "extractText env (resultJMESPath c ! i) raw =
      (case scalar raw of Some r \<Rightarrow> Inr r | None \<Rightarrow> Inl ''Failed to unmarshal JSON result'')"
    by (rule extractText_blank [OF assms])
next
  assume "parseJSONRPCParams (args c ! i) = Inr a \<and> Call env (methods c ! i) a = Inr raw"
  then show "callEach env target c (i # rest) w =
      (case scalar raw of
         None \<Rightarrow> (Inr False, send (Single (methods c ! i) a) w)
       | Some r \<Rightarrow>
           (case observe target c i (TrimSpace (args c ! i)) r
                   (send (Single (methods c ! i) a) w) of
              Inl p \<Rightarrow> (Inl p, send (Single (methods c ! i) a) w)
            | Inr w2 \<Rightarrow> callEach env target c rest w2))"
    by (cases "scalar raw") (simp_all add: extractText_blank [OF assms] Let_def)
next
  assume "Result (batch ! i) = RawMessage raw"
  then show "readEach env target c batch (i # rest) w =
      (case scalar raw of
         None \<Rightarrow> (Inr False, w)
       | Some r \<Rightarrow>
           (case observe target c i (TrimSpace (args c ! i)) r w of
              Inl p \<Rightarrow> (Inl p, w)
            | Inr w1 \<Rightarrow> readEach env target c batch rest w1))"
    by (cases "scalar raw") (simp_all add: extractText_blank [OF assms] raw_of_def)
qed

theorem blank_expression_scalar_witness:
  "TrimSpace (resultJMESPath (columns_of blank) ! 0) = [] \<and>
   extractText (mockEnv (JStr ''0x1234'')) (resultJMESPath (columns_of blank) ! 0)
     (Some (JStr ''0x1234'')) = Inr ''0x1234'' \<and>
   extractText (mockEnv (JStr ''0x1234'')) (resultJMESPath (columns_of blank) ! 0)
     (Some (JNum ''4660'')) = Inl ''Failed to unmarshal JSON result'' \<and>
   callEach (mockEnv (JStr ''0x1234'')) ''http://rpc.example'' (columns_of blank) [0] fresh =
     (Inr True,
      \<lparr>Registered = [], Gauges = [labels \<mapsto> F64 False 1165 2],
       Wire = [Single ''eth_blockNumber'' []]\<rparr>) \<and>
   readEach (mockEnv (JStr ''0x1234'')) ''http://rpc.example'' (columns_of blank)
     [\<lparr>Method = ''eth_blockNumber'', Args = [], Result = RawMessage (Some (JNum ''4660'')),
       Error = None\<rparr>] [0] fresh = (Inr False, fresh)"
proof -
  have b: "TrimSpace (resultJMESPath (columns_of blank) ! 0) = []"
    by (simp add: params_eval blank_def jsonrpc_def blockNumber_def strings_eval)
  from blank_expression_scalar [where c = "columns_of blank" and i = 0
      and env = "mockEnv (JStr ''0x1234'')" and raw = "Some (JStr ''0x1234'')", OF b, THEN conjunct1]
  have 1: "extractText (mockEnv (JStr ''0x1234'')) (resultJMESPath (columns_of blank) ! 0)
      (Some (JStr ''0x1234'')) = Inr ''0x1234''"
    by (simp add: scalar_def)
  from blank_expression_scalar [where c = "columns_of blank" and i = 0
      and env = "mockEnv (JStr ''0x1234'')" and raw = "Some (JNum ''4660'')", OF b, THEN conjunct1]
  have 2: "extractText (mockEnv (JStr ''0x1234'')) (resultJMESPath (columns_of blank) ! 0)
      (Some (JNum ''4660'')) = Inl ''Failed to unmarshal JSON result''"
    by (simp add: scalar_def)
  from blank_expression_scalar [where c = "columns_of blank" and i = 0 and a = "[]"
      and env = "mockEnv (JStr ''0x1234'')" and raw = "Some (JStr ''0x1234'')"
      and target = "''http://rpc.example''" and rest = "[]" and w = fresh,
      OF b, THEN conjunct2, THEN conjunct1]
  have 3: "callEach (mockEnv (JStr ''0x1234'')) ''http://rpc.example'' (columns_of blank) [0] fresh =
     (Inr True,
      \<lparr>Registered = [], Gauges = [labels \<mapsto> F64 False 1165 2],
       Wire = [Single ''eth_blockNumber'' []]\<rparr>)"
    by (simp add: probe_eval blank_def scalar_def scale_0 value_0x1234)
  from blank_expression_scalar [where c = "columns_of blank" and i = 0
      and raw = "Some (JNum ''4660'')"
      and batch = "[\<lparr>Method = ''eth_blockNumber'', Args = [],
        Result = RawMessage (Some (JNum ''4660'')), Error = None\<rparr>]"
      and env = "mockEnv (JStr ''0x1234'')" and target = "''http://rpc.example''" and rest = "[]"
      and w = fresh, OF b, THEN conjunct2, THEN conjunct2]
  have 4: "readEach (mockEnv (JStr ''0x1234'')) ''http://rpc.example'' (columns_of blank)
     [\<lparr>Method = ''eth_blockNumber'', Args = [], Result = RawMessage (Some (JNum ''4660'')),
       Error = None\<rparr>] [0] fresh = (Inr False, fresh)"
    by (simp add: probe_eval blank_def scalar_def)
  from b 1 2 3 4 show ?thesis by blast
qed

text \<open>
  C7 as stated fails: with no extraction expression a JSON number is not serialized and
  passed on to the normalizer; the extractor reports an error, the probe returns false and
  no gauge value is set, batched or not.
\<close>

theorem blank_expression_scalar_counterexample:
  "extractText (mockEnv (JNum ''4660'')) [] (Some (JNum ''4660'')) =
     Inl ''Failed to unmarshal JSON result'' \<and>
   fst (ProbeJSONRPC (mockEnv (JNum ''4660'')) ''rpc.example'' jsonrpc fresh) = Inr False \<and>
   Gauges (snd (ProbeJSONRPC (mockEnv (JNum ''4660'')) ''rpc.example'' jsonrpc fresh)) = Map.empty \<and>
   fst (ProbeJSONRPC (mockEnv (JNum ''4660'')) ''rpc.example'' (unbatched jsonrpc) fresh) = Inr False \<and>
   Gauges (snd (ProbeJSONRPC (mockEnv (JNum ''4660'')) ''rpc.example'' (unbatched jsonrpc) fresh)) =
     Map.empty"
  by (simp add: probe_eval)

subsection \<open>Absent fields\<close>

lemma field_absent: "absent k data \<Longrightarrow> field k data = JNull"
proof (cases data)
  case (JObj kvs)
  assume "absent k data"
  with JObj have "k \<notin> fst ` set (rev kvs)" by (simp add: absent_def)
  then have "map_of (rev kvs) k = None" by (simp add: map_of_eq_None_iff)
  with JObj show ?thesis by simp
qed simp_all

lemma take_hd: "p \<noteq> [] \<Longrightarrow> take (length p) (c # cs) = p \<Longrightarrow> hd p = c"
  by (cases p) auto

lemma leading_other:
  "\<forall>p \<in> set ps. p = [] \<or> hd p \<noteq> c \<Longrightarrow> leading ps (c # cs) = 0"
  by (induction ps) (auto dest: take_hd)

lemma identifier_byte:
  "isIdentifier e \<Longrightarrow> c \<in> set e \<Longrightarrow>
   48 \<le> (of_char c :: nat) \<and> (of_char c :: nat) \<le> 122"
  by (cases e) (auto simp: isIdentifier_def Let_def list_all_iff)

lemma white_first:
  "\<forall>p \<in> set whiteSpace. p \<noteq> [] \<and> ((of_char (hd p) :: nat) < 48 \<or> 122 < (of_char (hd p) :: nat))"
  by (simp add: whiteSpace_def)

lemma white_last:
  "\<forall>p \<in> set (map rev whiteSpace).
     p \<noteq> [] \<and> ((of_char (hd p) :: nat) < 48 \<or> 122 < (of_char (hd p) :: nat))"
  by (simp add: whiteSpace_def)

lemma TrimLeftOf_other:
  assumes "\<forall>p \<in> set ps. p = [] \<or> hd p \<noteq> c"
  shows "TrimLeftOf ps (c # cs) = c # cs"
  using leading_other [OF assms] by simp

lemma identifier_trimmed: "isIdentifier e \<Longrightarrow> TrimSpace e = e"
proof -
  assume id: "isIdentifier e"
  then have ne: "e \<noteq> []" by (simp add: isIdentifier_def)
  then obtain c cs where e: "e = c # cs" by (cases e) auto
  from ne obtain d ds where r: "rev e = d # ds" by (cases "rev e") auto
  have c: "48 \<le> (of_char c :: nat) \<and> (of_char c :: nat) \<le> 122"
    using identifier_byte [OF id, of c] e by simp
  have "d \<in> set e" using r by (metis list.set_intros(1) set_rev)
  then have d: "48 \<le> (of_char d :: nat) \<and> (of_char d :: nat) \<le> 122"
    using identifier_byte [OF id] by simp
  have 1: "TrimLeftOf whiteSpace e = e"
    unfolding e using white_first c by (intro TrimLeftOf_other) fastforce
  have 2: "TrimLeftOf (map rev whiteSpace) (rev e) = rev e"
    unfolding r using white_last d by (intro TrimLeftOf_other) fastforce
  show ?thesis by (simp add: TrimSpace_def 1 2)
qed

lemma nil_is_zero:
  assumes "0 \<le> scale"
  shows "resultToFloat64WithDecimals ''<nil>'' scale = Inr (F64 False 0 0)"
proof -
  have "SetString ''<nil>'' 10 = (0, False)" by (simp add: SetString_def bigDigit_def)
  then show ?thesis
    by (simp add: resultToFloat64WithDecimals_def HasPrefix_def normalizer_of_zero [OF assms]
        Float64_def)
qed

lemma extractText_absent:
  assumes "isIdentifier path" and "absent path jsonData"
  shows "extractText env path (Some jsonData) = Inr ''<nil>''"
  using assms
  by (simp add: extractText_def identifier_trimmed jmespath_Search_def field_absent isIdentifier_def)

lemma observe_nil:
  assumes "0 \<le> fst (ParseInt (decimals c ! i))"
    and "validateLabelValues [target, methods c ! i, echo, tags c ! i]"
  shows "observe target c i echo ''<nil>'' w =
     Inr (SetGauge (target, methods c ! i, echo, tags c ! i) (F64 False 0 0) w)"
  using assms(2) by (simp add: observe_def nil_is_zero [OF assms(1)] WithLabelValues_def)

text \<open>
  C6, amended. In the second listing, when the extraction expression of a descriptor is a
  bare field name that is absent from the decoded result, the scale is not negative and the
  four label values are valid UTF-8, the descriptor's gauge is set to 0 and the probe goes
  on to the next descriptor, in the loop over single calls and in the loop over batch
  elements alike. The probe returns false at a descriptor whose expression is not blank
  when \<^verbatim>\<open>jmespath.Search\<close> returns an error for it.
\<close>

theorem absent_field_reads_zero:
  "(isIdentifier (resultJMESPath c ! i) \<and> absent (resultJMESPath c ! i) jsonData \<and>
    0 \<le> fst (ParseInt (decimals c ! i)) \<and>
    validateLabelValues [target, methods c ! i, TrimSpace (args c ! i), tags c ! i] \<and>
    parseJSONRPCParams (args c ! i) = Inr a \<and> Call env (methods c ! i) a = Inr (Some jsonData) \<longrightarrow>
    callEach env target c (i # rest) w =
      callEach env target c rest
        (SetGauge (target, methods c ! i, TrimSpace (args c ! i), tags c ! i) (F64 False 0 0)
          (send (Single (methods c ! i) a) w))) \<and>
   (isIdentifier (resultJMESPath c ! i) \<and> absent (resultJMESPath c ! i) jsonData \<and>
    0 \<le> fst (ParseInt (decimals c ! i)) \<and>
    validateLabelValues [target, methods c ! i, TrimSpace (args c ! i), tags c ! i] \<and>
    Result (batch ! i) = RawMessage (Some jsonData) \<longrightarrow>
    readEach env target c batch (i # rest) w =
      readEach env target c batch rest
        (SetGauge (target, methods c ! i, TrimSpace (args c ! i), tags c ! i) (F64 False 0 0) w)) \<and>
   (TrimSpace (resultJMESPath c ! i) \<noteq> [] \<and>
    jmespath_Search env (resultJMESPath c ! i) jsonData = Inl e \<and>
    parseJSONRPCParams (args c ! i) = Inr a \<and> Call env (methods c ! i) a = Inr (Some jsonData) \<longrightarrow>
    callEach env target c (i # rest) w = (Inr False, send (Single (methods c ! i) a) w)) \<and>
   (TrimSpace (resultJMESPath c ! i) \<noteq> [] \<and>
    jmespath_Search env (resultJMESPath c ! i) jsonData = Inl e \<and>
    Result (batch ! i) = RawMessage (Some jsonData) \<longrightarrow>
    readEach env target c batch (i # rest) w = (Inr False, w))"
proof (intro conjI impI)
  assume a: "isIdentifier (resultJMESPath c ! i) \<and> absent (resultJMESPath c ! i) jsonData \<and>
    0 \<le> fst (ParseInt (decimals c ! i)) \<and>
    validateLabelValues [target, methods c ! i, TrimSpace (args c ! i), tags c ! i] \<and>
    parseJSONRPCParams (args c ! i) = Inr a \<and> Call env (methods c ! i) a = Inr (Some jsonData)"
  then have "extractText env (resultJMESPath c ! i) (Some jsonData) = Inr ''<nil>''"
    by (simp add: extractText_absent)
  with a show "callEach env target c (i # rest) w =
      callEach env target c rest
        (SetGauge (target, methods c ! i, TrimSpace (args c ! i), tags c ! i) (F64 False 0 0)
          (send (Single (methods c ! i) a) w))"
    by (simp add: observe_nil)
next
  assume a: "isIdentifier (resultJMESPath c ! i) \<and> absent (resultJMESPath c ! i) jsonData \<and>
    0 \<le> fst (ParseInt (decimals c ! i)) \<and>
    validateLabelValues [target, methods c ! i, TrimSpace (args c ! i), tags c ! i] \<and>
    Result (batch ! i) = RawMessage (Some jsonData)"
  then have "extractText env (resultJMESPath c ! i) (Some jsonData) = Inr ''<nil>''"
    by (simp add: extractText_absent)
  with a show "readEach env target c batch (i # rest) w =
      readEach env target c batch rest
        (SetGauge (target, methods c ! i, TrimSpace (args c ! i), tags c ! i) (F64 False 0 0) w)"
    by (simp add: observe_nil raw_of_def)
next
  assume a: "TrimSpace (resultJMESPath c ! i) \<noteq> [] \<and>
    jmespath_Search env (resultJMESPath c ! i) jsonData = Inl e \<and>
    parseJSONRPCParams (args c ! i) = Inr a \<and> Call env (methods c ! i) a = Inr (Some jsonData)"
  then show "callEach env target c (i # rest) w = (Inr False, send (Single (methods c ! i) a) w)"
    by (simp add: extractText_def)
next
  assume a: "TrimSpace (resultJMESPath c ! i) \<noteq> [] \<and>
    jmespath_Search env (resultJMESPath c ! i) jsonData = Inl e \<and>
    Result (batch ! i) = RawMessage (Some jsonData)"
  then show "readEach env target c batch (i # rest) w = (Inr False, w)"
    by (simp add: extractText_def raw_of_def)
qed

theorem absent_field_reads_zero_witness:
  "isIdentifier (resultJMESPath (columns_of balance) ! 0) \<and>
   absent (resultJMESPath (columns_of balance) ! 0) totalBalance \<and>
   callEach (mockEnv totalBalance) ''http://rpc.example'' (columns_of balance) [0] fresh =
     (Inr True,
      \<lparr>Registered = [], Gauges = [labels \<mapsto> F64 False 0 0],
       Wire = [Single ''eth_blockNumber'' []]\<rparr>) \<and>
   readEach (mockEnv totalBalance) ''http://rpc.example'' (columns_of balance)
     [\<lparr>Method = ''eth_blockNumber'', Args = [], Result = RawMessage (Some totalBalance),
       Error = None\<rparr>] [0] fresh =
     (Inr True, \<lparr>Registered = [], Gauges = [labels \<mapsto> F64 False 0 0], Wire = []\<rparr>) \<and>
   TrimSpace (resultJMESPath (columns_of broken) ! 0) \<noteq> [] \<and>
   jmespath_Search (mockEnv totalBalance) (resultJMESPath (columns_of broken) ! 0) totalBalance =
     Inl ''SyntaxError'' \<and>
   callEach (mockEnv totalBalance) ''http://rpc.example'' (columns_of broken) [0] fresh =
     (Inr False, \<lparr>Registered = [], Gauges = Map.empty, Wire = [Single ''eth_blockNumber'' []]\<rparr>) \<and>
   readEach (mockEnv totalBalance) ''http://rpc.example'' (columns_of broken)
     [\<lparr>Method = ''eth_blockNumber'', Args = [], Result = RawMessage (Some totalBalance),
       Error = None\<rparr>] [0] fresh = (Inr False, fresh)"
proof -
  have z: "resultToFloat64WithDecimals ''<nil>'' 0 = Inr (F64 False 0 0)"
    by (rule nil_is_zero) simp
  have a: "isIdentifier (resultJMESPath (columns_of balance) ! 0)"
    "absent (resultJMESPath (columns_of balance) ! 0) totalBalance"
    by (simp_all add: params_eval balance_def jsonrpc_def blockNumber_def isIdentifier_def
        absent_def totalBalance_def)
  have b: "TrimSpace (resultJMESPath (columns_of broken) ! 0) \<noteq> []"
    "jmespath_Search (mockEnv totalBalance) (resultJMESPath (columns_of broken) ! 0) totalBalance =
       Inl ''SyntaxError''"
    by (simp_all add: params_eval broken_def jsonrpc_def blockNumber_def isIdentifier_def
        jmespath_Search_def mockEnv_def strings_eval)
  note t1 = absent_field_reads_zero [where env = "mockEnv totalBalance" and jsonData = totalBalance
      and target = "''http://rpc.example''" and i = 0 and rest = "[]" and w = fresh and a = "[]"
      and batch = "[\<lparr>Method = ''eth_blockNumber'', Args = [],
        Result = RawMessage (Some totalBalance), Error = None\<rparr>]"
      and c = "columns_of balance" and e = "''SyntaxError''"]
  note t2 = absent_field_reads_zero [where env = "mockEnv totalBalance" and jsonData = totalBalance
      and target = "''http://rpc.example''" and i = 0 and rest = "[]" and w = fresh and a = "[]"
      and batch = "[\<lparr>Method = ''eth_blockNumber'', Args = [],
        Result = RawMessage (Some totalBalance), Error = None\<rparr>]"
      and c = "columns_of broken" and e = "''SyntaxError''"]
  from t1 [THEN conjunct1]
  have 1: "callEach (mockEnv totalBalance) ''http://rpc.example'' (columns_of balance) [0] fresh =
     (Inr True,
      \<lparr>Registered = [], Gauges = [labels \<mapsto> F64 False 0 0],
       Wire = [Single ''eth_blockNumber'' []]\<rparr>)"
    by (simp add: probe_eval balance_def totalBalance_def absent_def scale_0 z)
  from t1 [THEN conjunct2, THEN conjunct1]
  have 2: "readEach (mockEnv totalBalance) ''http://rpc.example'' (columns_of balance)
     [\<lparr>Method = ''eth_blockNumber'', Args = [], Result = RawMessage (Some totalBalance),
       Error = None\<rparr>] [0] fresh =
     (Inr True, \<lparr>Registered = [], Gauges = [labels \<mapsto> F64 False 0 0], Wire = []\<rparr>)"
    by (simp add: probe_eval balance_def totalBalance_def absent_def scale_0 z)
  from t2 [THEN conjunct2, THEN conjunct2, THEN conjunct1]
  have 3: "callEach (mockEnv totalBalance) ''http://rpc.example'' (columns_of broken) [0] fresh =
     (Inr False, \<lparr>Registered = [], Gauges = Map.empty, Wire = [Single ''eth_blockNumber'' []]\<rparr>)"
    by (simp add: probe_eval broken_def totalBalance_def)
  from t2 [THEN conjunct2, THEN conjunct2, THEN conjunct2]
  have 4: "readEach (mockEnv totalBalance) ''http://rpc.example'' (columns_of broken)
     [\<lparr>Method = ''eth_blockNumber'', Args = [], Result = RawMessage (Some totalBalance),
       Error = None\<rparr>] [0] fresh = (Inr False, fresh)"
    by (simp add: probe_eval broken_def totalBalance_def)
  from a b 1 2 3 4 show ?thesis by blast
qed

text \<open>
  C6 as stated fails: the endpoint answers with an object that has the one member
  \<^verbatim>\<open>totalBalance\<close>, the descriptor asks for \<^verbatim>\<open>balance\<close>, and the probe returns true with
  the gauge of the descriptor at 0: the second listing, batched or not, and the single calls
  of the first listing.
\<close>

theorem absent_field_reads_zero_counterexample:
  "absent ''balance'' totalBalance \<and>
   fst (ProbeJSONRPC (mockEnv totalBalance) ''rpc.example'' balance fresh) = Inr True \<and>
   Gauges (snd (ProbeJSONRPC (mockEnv totalBalance) ''rpc.example'' balance fresh)) labels =
     Some (F64 False 0 0) \<and>
   fst (ProbeJSONRPC (mockEnv totalBalance) ''rpc.example'' (unbatched balance) fresh) = Inr True \<and>
   Gauges (snd (ProbeJSONRPC (mockEnv totalBalance) ''rpc.example'' (unbatched balance) fresh))
     labels = Some (F64 False 0 0) \<and>
   fst (ProbeJSONRPC_v1 (mockEnv totalBalance) ''rpc.example'' (unbatched balance) fresh) =
     Inr True \<and>
   Gauges (snd (ProbeJSONRPC_v1 (mockEnv totalBalance) ''rpc.example'' (unbatched balance) fresh))
     labels = Some (F64 False 0 0)"
proof -
  have z: "resultToFloat64WithDecimals ''<nil>'' 0 = Inr (F64 False 0 0)"
    by (rule nil_is_zero) simp
  show ?thesis
    by (simp add: probe_eval balance_def totalBalance_def absent_def scale_0 z)
qed

subsection \<open>Batching\<close>

lemma buildBatch_parsed:
  "\<forall>i \<in> set is. \<exists>a. parseJSONRPCParams (args c ! i) = Inr a \<Longrightarrow>
   buildBatch c is batch = Some (batch @ map (element c) is)"
proof (induction "is" arbitrary: batch)
  case Nil
  show ?case by simp
next
  case (Cons i rest)
  from Cons.prems obtain a where a: "parseJSONRPCParams (args c ! i) = Inr a" by auto
  from Cons.prems have "\<forall>i \<in> set rest. \<exists>a. parseJSONRPCParams (args c ! i) = Inr a" by simp
  from Cons.IH [OF this] a show ?case by (simp add: element_def)
qed

lemma map_paired: "length ns = length xs \<Longrightarrow> map (\<lambda>(i, e). f e) (zip ns xs) = map f xs"
  by (induction ns xs rule: list_induct2) auto

lemma map_indexed: "map (\<lambda>(i, e). f e) (zip [0..<length xs] xs) = map f xs"
  by (rule map_paired) simp

lemma BatchCall_answers:
  assumes "answers env canned"
  shows "BatchCall env (map (element c) is) =
     Inr (map (\<lambda>i. (element c i)\<lparr>Result := RawMessage canned\<rparr>) is)"
proof -
  have "map (\<lambda>(i, e). store (Inr canned) e) (zip [0..<length (map (element c) is)] (map (element c) is)) =
        map (store (Inr canned)) (map (element c) is)"
    by (rule map_indexed)
  also have "\<dots> = map (\<lambda>i. (element c i)\<lparr>Result := RawMessage canned\<rparr>) is"
    by (simp add: element_def)
  finally have m: "map (\<lambda>(i, e). store (Inr canned) e)
      (zip [0..<length (map (element c) is)] (map (element c) is)) =
      map (\<lambda>i. (element c i)\<lparr>Result := RawMessage canned\<rparr>) is" .
  from assms have "Batch env (map (\<lambda>e. (Method e, Args e)) (map (element c) is)) =
      Inr (\<lambda>i. Inr canned)"
    by (simp add: answers_def)
  then show ?thesis unfolding BatchCall_def by (simp only: sum.case m)
qed

lemma observe_metrics:
  "metrics w = metrics w' \<Longrightarrow>
   (case observe target c i echo r w of Inl p \<Rightarrow> Inl p | Inr w1 \<Rightarrow> Inr (metrics w1)) =
   (case observe target c i echo r w' of Inl p \<Rightarrow> Inl p | Inr w1 \<Rightarrow> Inr (metrics w1))"
  by (simp add: observe_def metrics_def SetGauge_def WithLabelValues_def Let_def split: sum.splits)

text \<open>
  The two loops agree, descriptor by descriptor, on the outcome and on the metrics, when
  every call and every batch element is answered by the same raw result.
\<close>

lemma loops_agree:
  assumes "answers env canned"
    and "\<forall>i \<in> set is. (\<exists>a. parseJSONRPCParams (args c ! i) = Inr a) \<and>
           Result (batch ! i) = RawMessage canned"
    and "metrics w = metrics w'"
  shows "fst (callEach env target c is w) = fst (readEach env target c batch is w') \<and>
         metrics (snd (callEach env target c is w)) = metrics (snd (readEach env target c batch is w'))"
  using assms(2,3)
proof (induction "is" arbitrary: w w')
  case Nil
  then show ?case by simp
next
  case (Cons i rest)
  from Cons.prems(1) obtain a where a: "parseJSONRPCParams (args c ! i) = Inr a"
    and res: "Result (batch ! i) = RawMessage canned" by auto
  from assms(1) have call: "Call env (methods c ! i) a = Inr canned" by (simp add: answers_def)
  define w1 where "w1 = send (Single (methods c ! i) a) w"
  have m1: "metrics w1 = metrics w'" using Cons.prems(2) by (simp add: w1_def metrics_def send_def)
  show ?case
  proof (cases "extractText env (resultJMESPath c ! i) canned")
    case (Inl e)
    with a call res m1 show ?thesis by (simp add: raw_of_def w1_def [symmetric])
  next
    case (Inr r)
    note ob = observe_metrics [OF m1, of target c i "TrimSpace (args c ! i)" r]
    show ?thesis
    proof (cases "observe target c i (TrimSpace (args c ! i)) r w1")
      case (Inl p)
      with ob have "observe target c i (TrimSpace (args c ! i)) r w' = Inl p"
        by (simp split: sum.splits)
      with Inl Inr a call res m1 show ?thesis by (simp add: raw_of_def w1_def [symmetric])
    next
      case o1: (Inr w2)
      with ob obtain w2' where o2: "observe target c i (TrimSpace (args c ! i)) r w' = Inr w2'"
        and m2: "metrics w2 = metrics w2'"
        by (auto split: sum.splits)
      from Cons.prems(1) have "\<forall>i \<in> set rest. (\<exists>a. parseJSONRPCParams (args c ! i) = Inr a) \<and>
           Result (batch ! i) = RawMessage canned" by simp
      from Cons.IH [OF this m2] o1 o2 Inr a call res show ?thesis
        by (simp add: raw_of_def w1_def [symmetric])
    qed
  qed
qed

lemma unbatched_columns:
  "columns_of (unbatched params) = columns_of params"
  "Get (unbatched params) ''module'' = Get params ''module''"
  "Get (unbatched params) ''disableBatch'' = ''true''"
  by (simp_all add: unbatched_def columns_of_def values_of_def Get_def)

text \<open>
  C1, amended. In the second listing, for every list of call descriptors whose argument
  texts all parse and an endpoint that answers every call, single or in a batch, with the
  same raw result, the probe with batching disabled and the probe with batching enabled
  end with the same outcome and the same metrics: the same collectors and the same gauge
  value for every label tuple.
\<close>

theorem batching_same_metrics:
  assumes ans: "answers env canned"
    and parse: "list_all (\<lambda>a. \<exists>v. parseJSONRPCParams a = Inr v) (values_of params ''arg'')"
    and batched: "Get params ''disableBatch'' \<noteq> ''true''"
  shows "fst (ProbeJSONRPC env target (unbatched params) w) =
           fst (ProbeJSONRPC env target params w) \<and>
         metrics (snd (ProbeJSONRPC env target (unbatched params) w)) =
           metrics (snd (ProbeJSONRPC env target params w))"
proof -
  define c where "c = columns_of params"
  define n where "n = length (methods c)"
  define t where "t = with_scheme target"
  show ?thesis
  proof (cases "Dial env t \<and> \<not> columns_empty c \<and> \<not> columns_differ c \<and>
      Get params ''module'' = ''jsonrpc''")
    case False
    then show ?thesis
      by (auto simp: ProbeJSONRPC_def unbatched_columns Let_def c_def t_def)
  next
    case True
    show ?thesis
    proof (cases "MustRegister ''probe_jsonrpc'' w")
      case (Inl p)
      with True show ?thesis
        by (simp add: ProbeJSONRPC_def unbatched_columns Let_def c_def t_def)
    next
      case (Inr w1)
      from True have len: "length (args c) = n" by (simp add: columns_differ_def n_def)
      have args: "args c = values_of params ''arg''" by (simp add: c_def columns_of_def)
      have ok: "\<forall>i \<in> set [0..<n]. \<exists>a. parseJSONRPCParams (args c ! i) = Inr a"
        using parse len by (auto simp: args list_all_iff)
      define answered where
        "answered = map (\<lambda>i. (element c i)\<lparr>Result := RawMessage canned\<rparr>) [0..<n]"
      define w2 where
        "w2 = send (Batched (map (\<lambda>e. (Method e, Args e)) (map (element c) [0..<n]))) w1"
      have build: "buildBatch c [0..<n] [] = Some (map (element c) [0..<n])"
        using buildBatch_parsed [OF ok, of "[]"] by simp
      have call: "BatchCall env (map (element c) [0..<n]) = Inr answered"
        unfolding answered_def by (rule BatchCall_answers [OF ans])
      have la: "length answered = n" by (simp add: answered_def)
      have "ProbeJSONRPC env target params w =
          (case buildBatch c [0..<n] [] of
             None \<Rightarrow> (Inr False, w1)
           | Some batch \<Rightarrow>
               (let w2 = send (Batched (map (\<lambda>e. (Method e, Args e)) batch)) w1
                in case BatchCall env batch of
                     Inl err \<Rightarrow> (Inr False, w2)
                   | Inr answered \<Rightarrow> readEach env t c answered [0..<length answered] w2))"
        using True Inr batched
        by (simp add: ProbeJSONRPC_def Let_def c_def [symmetric] t_def [symmetric]
            n_def [symmetric])
      also have "\<dots> = readEach env t c answered [0..<n] w2"
        unfolding build option.case Let_def call sum.case la w2_def ..
      finally have right: "ProbeJSONRPC env target params w = readEach env t c answered [0..<n] w2" .
      have left: "ProbeJSONRPC env target (unbatched params) w = callEach env t c [0..<n] w1"
        using True Inr
        by (simp add: ProbeJSONRPC_def unbatched_columns Let_def c_def [symmetric]
            t_def [symmetric] n_def [symmetric])
      have each: "\<forall>i \<in> set [0..<n]. (\<exists>a. parseJSONRPCParams (args c ! i) = Inr a) \<and>
          Result (answered ! i) = RawMessage canned"
        using ok by (simp add: answered_def)
      have m: "metrics w1 = metrics w2" by (simp add: w2_def metrics_def send_def)
      from loops_agree [OF ans each m, of t] show ?thesis by (simp add: left right)
    qed
  qed
qed

theorem batching_same_metrics_witness:
  "answers (mockEnv (JStr ''0x1234'')) (Some (JStr ''0x1234'')) \<and>
   list_all (\<lambda>a. \<exists>v. parseJSONRPCParams a = Inr v) (values_of jsonrpc ''arg'') \<and>
   Get jsonrpc ''disableBatch'' \<noteq> ''true'' \<and>
   fst (ProbeJSONRPC (mockEnv (JStr ''0x1234'')) ''rpc.example'' (unbatched jsonrpc) fresh) =
     fst (ProbeJSONRPC (mockEnv (JStr ''0x1234'')) ''rpc.example'' jsonrpc fresh) \<and>
   metrics (snd (ProbeJSONRPC (mockEnv (JStr ''0x1234'')) ''rpc.example'' (unbatched jsonrpc) fresh)) =
     metrics (snd (ProbeJSONRPC (mockEnv (JStr ''0x1234'')) ''rpc.example'' jsonrpc fresh)) \<and>
   metrics (snd (ProbeJSONRPC (mockEnv (JStr ''0x1234'')) ''rpc.example'' jsonrpc fresh)) =
     ([''probe_jsonrpc''], [labels \<mapsto> F64 False 1165 2])"
proof -
  have a: "answers (mockEnv (JStr ''0x1234'')) (Some (JStr ''0x1234''))"
    by (simp add: answers_def mockEnv_def)
  have p: "list_all (\<lambda>a. \<exists>v. parseJSONRPCParams a = Inr v) (values_of jsonrpc ''arg'')"
    by (simp add: params_eval jsonrpc_def blockNumber_def parseJSONRPCParams_def)
  have b: "Get jsonrpc ''disableBatch'' \<noteq> ''true''"
    by (simp add: params_eval jsonrpc_def blockNumber_def)
  have m: "metrics (snd (ProbeJSONRPC (mockEnv (JStr ''0x1234'')) ''rpc.example'' jsonrpc fresh)) =
      ([''probe_jsonrpc''], [labels \<mapsto> F64 False 1165 2])"
    by (simp add: scenario(1) metrics_def)
  from batching_same_metrics [OF a p b, of "''rpc.example''" fresh] a p b m
  show ?thesis by blast
qed

text \<open>
  C1 as stated fails for a descriptor whose argument text does not parse. Unbatched, the
  descriptors before it have been called and their gauges set when the probe fails;
  batched, every argument text is parsed before anything is sent, and the probe fails with
  no gauge value set.
\<close>

theorem batching_same_metrics_counterexample:
  "answers (mockEnv (JStr ''0x1234'')) (Some (JStr ''0x1234'')) \<and>
   Gauges (snd (ProbeJSONRPC (mockEnv (JStr ''0x1234'')) ''rpc.example'' (unbatched unclosed) fresh))
     labels = Some (F64 False 1165 2) \<and>
   Gauges (snd (ProbeJSONRPC (mockEnv (JStr ''0x1234'')) ''rpc.example'' unclosed fresh)) =
     Map.empty"
proof -
  have a: "answers (mockEnv (JStr ''0x1234'')) (Some (JStr ''0x1234''))"
    by (simp add: answers_def mockEnv_def)
  have b: "Gauges (snd (ProbeJSONRPC (mockEnv (JStr ''0x1234'')) ''rpc.example''
      (unbatched unclosed) fresh)) labels = Some (F64 False 1165 2)"
    by (simp add: probe_eval unclosed_def scale_0 value_0x1234 upt_rec)
  have c: "Gauges (snd (ProbeJSONRPC (mockEnv (JStr ''0x1234'')) ''rpc.example'' unclosed fresh)) =
      Map.empty"
    by (simp add: probe_eval unclosed_def upt_rec)
  from a b c show ?thesis by blast
qed

end
